theory Spec2Isabelle
  imports Complex_Main "HOL-Library.AList"
begin

section \<open>Strings and exceptions\<close>

text \<open>
  Python strings are modelled as \<open>string\<close>. \<open>str_int\<close> is \<open>str\<close> on an integer, as the
  f-strings of the source use it; \<open>join\<close> is \<open>sep.join(xs)\<close>.
\<close>

function str_nat :: "nat \<Rightarrow> string" where
  "str_nat n = (if n < 10 then [''0123456789'' ! n]
                else str_nat (n div 10) @ [''0123456789'' ! (n mod 10)])"
  by pat_completeness auto
termination
  by (relation "measure id") auto

definition str_int :: "int \<Rightarrow> string" where
  "str_int i = (if i < 0 then ''-'' @ str_nat (nat (- i)) else str_nat (nat i))"

fun join :: "string \<Rightarrow> string list \<Rightarrow> string" where
  "join sep [] = []"
| "join sep [x] = x"
| "join sep (x # y # ys) = x @ sep @ join sep (y # ys)"

text \<open>
  Characters are the code points 0 to 255. \<open>is_space\<close> is \<open>str.isspace\<close> on one character,
  the white space that \<open>str.strip()\<close> removes.
\<close>

definition is_space :: "char \<Rightarrow> bool" where
  "is_space c = (of_char c \<in> set [9, 10, 11, 12, 13, 28, 29, 30, 31, 32, 133, 160 :: nat])"

text \<open>
  \<open>int(s)\<close> in base 10: white space around the number is skipped (of the characters of
  \<open>is_space\<close>, \<open>int\<close> does not accept the separators 28 to 31), then comes an optional
  sign and a digit, and after a digit either a digit or one underscore followed by a
  digit. Every other text is answered with \<open>None\<close>: Python raises ValueError.
\<close>

definition is_digit :: "char \<Rightarrow> bool" where
  "is_digit c = (c \<in> set ''0123456789'')"

definition digit_val :: "char \<Rightarrow> nat" where
  "digit_val c = of_char c - 48"

definition int_space :: "char \<Rightarrow> bool" where
  "int_space c = (of_char c \<in> set [9, 10, 11, 12, 13, 32, 133, 160 :: nat])"

definition int_strip :: "string \<Rightarrow> string" where
  "int_strip s = rev (dropWhile int_space (rev (dropWhile int_space s)))"

fun digits_from :: "nat \<Rightarrow> string \<Rightarrow> nat option" where
  "digits_from acc [] = Some acc"
| "digits_from acc [c] = (if is_digit c then Some (10 * acc + digit_val c) else None)"
| "digits_from acc (c # d # cs) =
     (if is_digit c then digits_from (10 * acc + digit_val c) (d # cs)
      else if c = CHR ''_'' \<and> is_digit d then digits_from (10 * acc + digit_val d) cs
      else None)"

fun py_nat :: "string \<Rightarrow> nat option" where
  "py_nat [] = None"
| "py_nat (c # cs) = (if is_digit c then digits_from (digit_val c) cs else None)"

definition py_int :: "string \<Rightarrow> int option" where
  "py_int s =
     (case int_strip s of
        [] \<Rightarrow> None
      | c # rest \<Rightarrow>
          if c = CHR ''-'' then map_option (\<lambda>n. - int n) (py_nat rest)
          else if c = CHR ''+'' then map_option int (py_nat rest)
          else map_option int (py_nat (c # rest)))"

text \<open>
  \<open>repr(s)\<close>: the text between single quotes, or between double quotes when it holds a
  single quote and no double quote; the backslash, the quote in use, newline, carriage
  return and tab are escaped, every other character that is not printable is written
  as a backslash, \<open>x\<close> and its two hexadecimal digits.
\<close>

definition hex2 :: "nat \<Rightarrow> string" where
  "hex2 n = [''0123456789abcdef'' ! (n div 16), ''0123456789abcdef'' ! (n mod 16)]"

definition repr_char :: "char \<Rightarrow> char \<Rightarrow> string" where
  "repr_char q c =
     (let n = (of_char c :: nat)
      in if c = CHR 0x5C then [CHR 0x5C, CHR 0x5C]
         else if c = q then [CHR 0x5C, q]
         else if n = 10 then [CHR 0x5C, CHR ''n'']
         else if n = 13 then [CHR 0x5C, CHR ''r'']
         else if n = 9 then [CHR 0x5C, CHR ''t'']
         else if n < 32 \<or> (127 \<le> n \<and> n \<le> 160) \<or> n = 173 then [CHR 0x5C, CHR ''x''] @ hex2 n
         else [c])"

definition py_repr :: "string \<Rightarrow> string" where
  "py_repr s =
     (let q = (if CHR 0x27 \<in> set s \<and> CHR 0x22 \<notin> set s then CHR 0x22 else CHR 0x27)
      in [q] @ concat (map (repr_char q) s) @ [q])"

text \<open>
  An exception is its class name (\<open>type(e).__name__\<close>) and its text (\<open>str(e)\<close>). None of the
  classes that the source tests an exception against (ParseError, DiagramGenerationError,
  LanguageNotSupportedError) has a subclass in \<open>exceptions.py\<close>, so \<open>isinstance(e, C)\<close> is
  equality of the class name; \<open>except Exception\<close> catches every value of this type.
\<close>

datatype exc = Exc (exc_type: string) (exc_str: string)

definition isinstance :: "exc \<Rightarrow> string \<Rightarrow> bool" where
  "isinstance e cls = (exc_type e = cls)"

text \<open>
  \<open>QuestionAnswerError.__init__\<close> builds the text of the exception from the message, the
  context dictionary and the guidance.
\<close>

definition full_message :: "string \<Rightarrow> (string \<times> string) list \<Rightarrow> string option \<Rightarrow> string" where
  "full_message message context guidance =
     message
     @ (if context \<noteq> []
        then '' [Context: '' @ join '', '' (map (\<lambda>(k, v). k @ ''='' @ v) context) @ '']''
        else [])
     @ (case guidance of
          None \<Rightarrow> []
        | Some g \<Rightarrow> if g \<noteq> [] then '' [Guidance: '' @ g @ '']'' else [])"

definition AnswerGenerationError :: "string \<Rightarrow> exc" where
  \<comment> \<open>\<open>AnswerGenerationError(message)\<close>: no question id, no context, the default guidance\<close>
  "AnswerGenerationError message =
     Exc ''AnswerGenerationError''
       (full_message message []
          (Some ''Please try again or contact support if the issue persists.''))"

definition LanguageNotSupportedError :: "string \<Rightarrow> exc" where
  \<comment> \<open>\<open>LanguageNotSupportedError(language)\<close>: no list of supported languages\<close>
  "LanguageNotSupportedError language =
     Exc ''LanguageNotSupportedError''
       (full_message (''Language '' @ [CHR 0x27] @ language @ [CHR 0x27] @ '' is not supported'')
          [(''language'', language)] (Some ''Please select a supported language''))"

definition ValueError :: "string \<Rightarrow> exc" where
  "ValueError message = Exc ''ValueError'' message"

text \<open>
  \<open>ParseError.__init__(self, message, parse_issue, context=None, guidance=None)\<close> has two
  required parameters. Both places of \<open>tasks.py\<close> that raise it pass the message only, so
  evaluating \<open>ParseError(msg)\<close> raises the interpreter's TypeError (text as CPython 3.10 and
  later print it) before any ParseError exists.
\<close>

definition ParseError_message_only :: "string \<Rightarrow> exc" where
  "ParseError_message_only message =
     Exc ''TypeError''
       (''ParseError.__init__() missing 1 required positional argument: ''
        @ [CHR 0x27] @ ''parse_issue'' @ [CHR 0x27])"

section \<open>Session store (\<open>session_manager.py\<close>)\<close>

datatype SessionStatus = PENDING | PROCESSING | COMPLETE | ERROR

fun status_value :: "SessionStatus \<Rightarrow> string" where
  "status_value PENDING = ''pending''"
| "status_value PROCESSING = ''processing''"
| "status_value COMPLETE = ''complete''"
| "status_value ERROR = ''error''"

record ProgressEvent =
  session_id :: string
  stage :: string
  progress :: int
  message :: string
  timestamp :: string

text \<open>The dictionary that \<open>store_answer\<close> writes for one answer preview.\<close>

record AnswerPreview =
  index :: int
  question :: string
  answer :: string
  diagrams_count :: int
  ap_timestamp :: string

record PDFDocument =
  pdf_content :: string
  filename :: string
  page_count :: int

text \<open>The two dictionaries that the pipeline passes to \<open>store_result\<close>.\<close>

datatype result_data =
  Success_result (pdf_identifier: string) (res_filename: string) (res_page_count: int)
    (questions_processed: nat) (answers_generated: nat) (diagrams_generated: nat)
| Error_result (error: string) (error_type: string) (traceback: string)

text \<open>
  What the program does beyond computing values is recorded as a history of effects, in
  program order: the status writes of \<open>update_session_status\<close>, the calls of \<open>os.remove\<close>
  and of \<open>time.sleep\<close>, and the attempts of the retry loop to call the language-model
  provider.
\<close>

datatype effect =
  StatusWrite string SessionStatus
| FileRemove string
| Sleep nat
| ProviderCall string string

text \<open>
  The state of the world. Redis is a reliable store here: a hash is an association list
  of fields, a missing key is the empty hash or the empty list, the JSON texts kept in
  lists and values are represented by the records they encode, and expiry (\<open>expire\<close>,
  \<open>ex=\<close>) is not modelled. \<open>files\<close> is the file system (path to content), \<open>pdfs\<close> the
  storage of generated documents, and \<open>clock\<close> the text of
  \<open>datetime.utcnow().isoformat()\<close>.
\<close>

record world =
  hashes :: "string \<Rightarrow> (string \<times> string) list"
  progress_lists :: "string \<Rightarrow> ProgressEvent list"
  answers_lists :: "string \<Rightarrow> AnswerPreview list"
  results :: "string \<rightharpoonup> result_data"
  files :: "string \<rightharpoonup> string"
  pdfs :: "string \<rightharpoonup> PDFDocument"
  clock :: string
  history :: "effect list"

definition get_session_key :: "string \<Rightarrow> string" where
  "get_session_key sid = ''session:'' @ sid"

definition get_progress_key :: "string \<Rightarrow> string" where
  "get_progress_key sid = ''progress:'' @ sid"

definition get_result_key :: "string \<Rightarrow> string" where
  "get_result_key sid = ''result:'' @ sid"

definition get_answers_key :: "string \<Rightarrow> string" where
  "get_answers_key sid = ''answers:'' @ sid"

definition hset :: "string \<Rightarrow> string \<Rightarrow> string \<Rightarrow> world \<Rightarrow> world" where
  "hset key field v w = w\<lparr>hashes := (hashes w)(key := AList.update field v (hashes w key))\<rparr>"

definition hget :: "world \<Rightarrow> string \<Rightarrow> string \<Rightarrow> string option" where
  "hget w key field = map_of (hashes w key) field"

text \<open>
  \<open>create_session\<close>: \<open>new_uuid\<close> is the text of \<open>uuid.uuid4()\<close>, \<open>metadata\<close> the JSON text
  of a non-empty metadata dictionary (\<open>None\<close> and the empty dictionary both give \<open>{}\<close>).
\<close>

definition create_session ::
  "string \<Rightarrow> string option \<Rightarrow> string \<Rightarrow> string option \<Rightarrow> world \<Rightarrow> string \<times> world" where
  "create_session new_uuid sid_opt language metadata w =
     (let sid = (case sid_opt of None \<Rightarrow> new_uuid | Some s \<Rightarrow> s);
          session_data =
            [(''session_id'', sid),
             (''status'', status_value PENDING),
             (''language'', language),
             (''created_at'', clock w),
             (''metadata'', (case metadata of None \<Rightarrow> ''{}'' | Some m \<Rightarrow> m))];
          session_key = get_session_key sid
      in (sid, foldl (\<lambda>w' (f, v). hset session_key f v w') w session_data))"

text \<open>
  \<open>get_session\<close>: the fields of the hash, or \<open>None\<close> when the hash is empty. The field
  \<open>metadata\<close> holds the text that \<open>json.dumps\<close> wrote in \<open>create_session\<close>, which
  \<open>json.loads\<close> reads back; the text stands for the value here.
\<close>

definition get_session :: "string \<Rightarrow> world \<Rightarrow> (string \<times> string) list option" where
  "get_session sid w =
     (let session_data = hashes w (get_session_key sid)
      in if session_data = [] then None else Some session_data)"

definition update_session_status :: "string \<Rightarrow> SessionStatus \<Rightarrow> world \<Rightarrow> world" where
  "update_session_status sid status w =
     (hset (get_session_key sid) ''status'' (status_value status) w)
       \<lparr>history := history w @ [StatusWrite sid status]\<rparr>"

definition add_progress_event :: "ProgressEvent \<Rightarrow> world \<Rightarrow> world" where
  "add_progress_event event w =
     (let progress_key = get_progress_key (session_id event);
          w1 = w\<lparr>progress_lists :=
                   (progress_lists w)(progress_key := progress_lists w progress_key @ [event])\<rparr>;
          session_key = get_session_key (session_id event);
          w2 = hset session_key ''progress'' (str_int (progress event)) w1
      in hset session_key ''current_stage'' (stage event) w2)"

definition get_progress_events :: "string \<Rightarrow> world \<Rightarrow> ProgressEvent list" where
  "get_progress_events sid w = progress_lists w (get_progress_key sid)"

record latest_progress =
  lp_progress :: int
  lp_stage :: string
  lp_status :: string

text \<open>
  \<open>get_latest_progress\<close> answers \<open>None\<close> when the hash has no \<open>progress\<close> field; \<open>int\<close> of a
  text that is not a number raises ValueError.
\<close>

definition get_latest_progress :: "string \<Rightarrow> world \<Rightarrow> exc + latest_progress option" where
  "get_latest_progress sid w =
     (let session_key = get_session_key sid;
          progress = hget w session_key ''progress'';
          stage = hget w session_key ''current_stage'';
          status = hget w session_key ''status''
      in case progress of
           None \<Rightarrow> Inr None
         | Some p \<Rightarrow>
             (case (if p \<noteq> [] then py_int p else Some 0) of
                None \<Rightarrow>
                  Inl (ValueError (''invalid literal for int() with base 10: ''
                                   @ take 200 (py_repr p)))
              | Some n \<Rightarrow>
                  Inr (Some \<lparr>lp_progress = n,
                             lp_stage = (case stage of None \<Rightarrow> ''pending''
                                         | Some s \<Rightarrow> if s \<noteq> [] then s else ''pending''),
                             lp_status = (case status of None \<Rightarrow> status_value PENDING
                                          | Some s \<Rightarrow> if s \<noteq> [] then s
                                                      else status_value PENDING)\<rparr>)))"

definition store_result :: "string \<Rightarrow> result_data \<Rightarrow> world \<Rightarrow> world" where
  "store_result sid rd w = w\<lparr>results := (results w)(get_result_key sid \<mapsto> rd)\<rparr>"

definition get_result :: "string \<Rightarrow> world \<Rightarrow> result_data option" where
  "get_result sid w = results w (get_result_key sid)"

definition store_answer :: "string \<Rightarrow> int \<Rightarrow> string \<Rightarrow> string \<Rightarrow> int \<Rightarrow> world \<Rightarrow> world" where
  "store_answer sid question_index question_text answer_text diagrams_cnt w =
     (let answers_key = get_answers_key sid;
          answer_data = \<lparr>index = question_index, question = question_text,
                         answer = answer_text, diagrams_count = diagrams_cnt,
                         ap_timestamp = clock w\<rparr>
      in w\<lparr>answers_lists :=
             (answers_lists w)(answers_key := answers_lists w answers_key @ [answer_data])\<rparr>)"

definition get_answers :: "string \<Rightarrow> world \<Rightarrow> AnswerPreview list" where
  "get_answers sid w = answers_lists w (get_answers_key sid)"



section \<open>Data model (\<open>models.py\<close>) and language service\<close>

record Question =
  q_id :: string
  q_text :: string
  q_context :: "string option"

record VisualElementSpec =
  ve_type :: string
  ve_description :: string
  ve_language :: string

record Answer =
  question_id :: string
  content :: string
  language :: string
  visual_elements :: "VisualElementSpec list"
  references :: "string list"
  knowledge_sources :: "string list"

record Diagram =
  image_data :: string
  format :: string
  caption :: string
  d_language :: string

record KnowledgeEntry =
  ke_id :: string
  ke_references :: "string list"

text \<open>
  \<open>s.strip()\<close> is empty exactly when every character of \<open>s\<close> is white space.
\<close>

definition blank :: "string \<Rightarrow> bool" where
  "blank s = list_all is_space s"

text \<open>\<open>Answer(...)\<close> with the checks of \<open>__post_init__\<close>.\<close>

definition new_Answer ::
  "string \<Rightarrow> string \<Rightarrow> string \<Rightarrow> VisualElementSpec list \<Rightarrow> string list \<Rightarrow> string list
   \<Rightarrow> exc + Answer" where
  "new_Answer qid cont lang ves refs srcs =
     (if blank cont then Inl (ValueError ''Answer content cannot be empty'')
      else if lang = [] then Inl (ValueError ''Language code cannot be empty'')
      else Inr \<lparr>question_id = qid, content = cont, language = lang, visual_elements = ves,
                references = refs, knowledge_sources = srcs\<rparr>)"



definition supported_languages :: "string list" where
  "supported_languages = [''en'', ''es'', ''fr'', ''de'', ''zh'', ''ja'', ''hi'', ''ar'', ''pt'', ''ru'']"

definition is_supported :: "string \<Rightarrow> bool" where
  "is_supported language_code = (language_code \<in> set supported_languages)"

section \<open>External collaborators\<close>

text \<open>
  The parts of the system that the pipeline only calls are parameters: each is a function
  of its arguments that answers a value or the exception it raises. The provider of the
  language model also receives the number of provider calls made before, so that
  successive attempts with the same prompt may differ. The four keys and \<open>getenv\<close> are
  the settings and the environment that \<open>AnswerGenerator.__init__\<close> reads.
\<close>

record env =
  parse :: "string \<Rightarrow> string \<Rightarrow> exc + Question list"
  format_exc :: "exc \<Rightarrow> string"
  knowledge_base_init :: "exc option"
  kb_search :: "string \<Rightarrow> exc + KnowledgeEntry list"
  build_context :: "KnowledgeEntry list \<Rightarrow> exc + string"
  build_prompt :: "Question \<Rightarrow> string \<Rightarrow> string \<Rightarrow> KnowledgeEntry list \<Rightarrow> exc + string"
  provider :: "string \<Rightarrow> nat \<Rightarrow> string \<Rightarrow> exc + string"
  detect_visual_elements :: "Question \<Rightarrow> string \<Rightarrow> string \<Rightarrow> exc + VisualElementSpec list"
  generate_diagram :: "VisualElementSpec \<Rightarrow> exc + Diagram"
  generate_pdf ::
    "Question list \<Rightarrow> Answer list \<Rightarrow> (string \<times> Diagram list) list \<Rightarrow> string \<Rightarrow> exc + PDFDocument"
  save_pdf :: "PDFDocument \<Rightarrow> exc + string"
  session_local :: "exc option"
  get_user_api_key :: "int \<Rightarrow> string \<Rightarrow> exc + string option"
  llm_client_init :: "string \<Rightarrow> string \<Rightarrow> exc option"
  other_services_init :: "exc option"
  openai_api_key :: string
  anthropic_api_key :: string
  gemini_api_key :: string
  perplexity_api_key :: string
  getenv :: "string \<Rightarrow> string option"

section \<open>Answer generator (\<open>answer_generator.py\<close>)\<close>

record AnswerGenerator =
  llm_provider :: string
  max_retries :: int
  progress_callback :: "(string \<Rightarrow> int \<Rightarrow> string \<Rightarrow> world \<Rightarrow> world) option"

definition default_max_retries :: int where
  "default_max_retries = 3"

text \<open>Python's \<open>a or b\<close> on optional texts: \<open>None\<close> and the empty text are false.\<close>

definition truthy :: "string option \<Rightarrow> bool" where
  "truthy a = (case a of None \<Rightarrow> False | Some s \<Rightarrow> s \<noteq> [])"

definition py_or :: "string option \<Rightarrow> string option \<Rightarrow> string option" where
  "py_or a b = (if truthy a then a else b)"

text \<open>
  \<open>AnswerGenerator.__init__\<close>: the key is the override, else the setting, else the
  environment variable; without a key, or with an unknown provider, it raises.
\<close>

definition new_AnswerGenerator ::
  "env \<Rightarrow> string \<Rightarrow> int \<Rightarrow> (string \<Rightarrow> int \<Rightarrow> string \<Rightarrow> world \<Rightarrow> world) option \<Rightarrow> string option
   \<Rightarrow> exc + AnswerGenerator" where
  "new_AnswerGenerator env prov retries callback api_key_override =
     (let gen = \<lparr>llm_provider = prov, max_retries = retries, progress_callback = callback\<rparr>;
          with_key = (\<lambda>setting var missing.
             (let api_key = py_or (py_or api_key_override (Some setting)) (getenv env var)
              in if \<not> truthy api_key then Inl (AnswerGenerationError missing)
                 else (case llm_client_init env prov (the api_key) of
                         Some e \<Rightarrow> Inl e
                       | None \<Rightarrow> Inr gen)))
      in if prov = ''openai'' then
           with_key (openai_api_key env) ''OPENAI_API_KEY''
             ''OpenAI API key not found. Set OPENAI_API_KEY environment variable.''
         else if prov = ''anthropic'' then
           with_key (anthropic_api_key env) ''ANTHROPIC_API_KEY''
             ''Anthropic API key not found. Set ANTHROPIC_API_KEY environment variable.''
         else if prov = ''gemini'' then
           with_key (gemini_api_key env) ''GEMINI_API_KEY''
             ''Gemini API key not found. Set GEMINI_API_KEY environment variable.''
         else if prov = ''perplexity'' then
           with_key (perplexity_api_key env) ''PERPLEXITY_API_KEY''
             ''Perplexity API key not found. Set PERPLEXITY_API_KEY environment variable.''
         else Inl (AnswerGenerationError (''Unsupported LLM provider: '' @ prov)))"

text \<open>\<open>AnswerGenerator._emit_progress\<close>: calls the callback when one is configured.\<close>

definition gen_emit_progress :: "AnswerGenerator \<Rightarrow> string \<Rightarrow> int \<Rightarrow> string \<Rightarrow> world \<Rightarrow> world" where
  "gen_emit_progress gen stg pct msg w =
     (case progress_callback gen of None \<Rightarrow> w | Some cb \<Rightarrow> cb stg pct msg w)"

text \<open>\<open>_search_knowledge_base\<close>: a failing search is answered with the empty list.\<close>

definition search_knowledge_base :: "env \<Rightarrow> Question \<Rightarrow> KnowledgeEntry list" where
  "search_knowledge_base env q =
     (case kb_search env (q_text q) of Inl e \<Rightarrow> [] | Inr entries \<Rightarrow> entries)"

definition generate_references :: "KnowledgeEntry list \<Rightarrow> string list" where
  "generate_references knowledge_entries =
     foldl (\<lambda>refs r. if r \<in> set refs then refs else refs @ [r]) []
       (concat (map ke_references knowledge_entries))"

definition sleep :: "nat \<Rightarrow> world \<Rightarrow> world" where
  "sleep secs w = w\<lparr>history := history w @ [Sleep secs]\<rparr>"

fun is_provider_call :: "effect \<Rightarrow> bool" where
  "is_provider_call (ProviderCall p q) = True"
| "is_provider_call e = False"

definition provider_calls :: "world \<Rightarrow> nat" where
  "provider_calls w = length (filter is_provider_call (history w))"

text \<open>
  One attempt: the body of the \<open>try\<close> in \<open>_generate_answer_with_llm\<close>, the dispatch on the
  provider name. \<open>attempt_result\<close> is what the dispatch answers when \<open>calls\<close> attempts were
  made before; the history records the attempt as \<open>ProviderCall\<close>.
\<close>

definition attempt_result :: "env \<Rightarrow> string \<Rightarrow> string \<Rightarrow> nat \<Rightarrow> exc + string" where
  "attempt_result env prov prompt calls =
     (if prov = ''openai'' \<or> prov = ''anthropic'' \<or> prov = ''gemini'' \<or> prov = ''perplexity''
      then provider env prov calls prompt
      else Inl (AnswerGenerationError (''Unsupported provider: '' @ prov)))"

definition call_provider :: "env \<Rightarrow> string \<Rightarrow> string \<Rightarrow> world \<Rightarrow> world \<times> (exc + string)" where
  "call_provider env prov prompt w =
     (w\<lparr>history := history w @ [ProviderCall prov prompt]\<rparr>,
      attempt_result env prov prompt (provider_calls w))"

text \<open>
  The retry loop \<open>for attempt in range(self.max_retries)\<close>: the result is the world, the
  last error and the response when an attempt returned one.
\<close>

definition py_range :: "int \<Rightarrow> nat list" where
  "py_range n = [0..<nat n]"

fun llm_retry_loop ::
  "env \<Rightarrow> AnswerGenerator \<Rightarrow> string \<Rightarrow> nat list \<Rightarrow> exc option \<Rightarrow> world
   \<Rightarrow> world \<times> exc option \<times> string option" where
  "llm_retry_loop env gen prompt [] last_error w = (w, last_error, None)"
| "llm_retry_loop env gen prompt (attempt # rest) last_error w =
     (case call_provider env (llm_provider gen) prompt w of
        (w', Inr response) \<Rightarrow> (w', last_error, Some response)
      | (w', Inl e) \<Rightarrow>
          if int attempt < max_retries gen - 1
          then llm_retry_loop env gen prompt rest (Some e) (sleep (2 ^ attempt) w')
          else (w', Some e, None))"

definition str_opt_exc :: "exc option \<Rightarrow> string" where
  "str_opt_exc e = (case e of None \<Rightarrow> ''None'' | Some x \<Rightarrow> exc_str x)"

definition retry_with_backoff ::
  "env \<Rightarrow> AnswerGenerator \<Rightarrow> string \<Rightarrow> world \<Rightarrow> world \<times> (exc + string)" where
  "retry_with_backoff env gen prompt w =
     (case llm_retry_loop env gen prompt (py_range (max_retries gen)) None w of
        (w', last_error, Some response) \<Rightarrow> (w', Inr response)
      | (w', last_error, None) \<Rightarrow>
          (w', Inl (AnswerGenerationError
                      (''Failed to generate answer after '' @ str_int (max_retries gen)
                       @ '' attempts. Last error: '' @ str_opt_exc last_error))))"

definition generate_answer_with_llm ::
  "env \<Rightarrow> AnswerGenerator \<Rightarrow> Question \<Rightarrow> string \<Rightarrow> string \<Rightarrow> KnowledgeEntry list \<Rightarrow> world
   \<Rightarrow> world \<times> (exc + string)" where
  "generate_answer_with_llm env gen q context target_language knowledge_entries w =
     (case build_prompt env q context target_language knowledge_entries of
        Inl e \<Rightarrow> (w, Inl e)
      | Inr prompt \<Rightarrow> retry_with_backoff env gen prompt w)"

definition quoted :: "string \<Rightarrow> string" where
  "quoted s = [CHR 0x27] @ s @ [CHR 0x27]"

text \<open>
  The handlers at the end of \<open>generate_answer\<close>: LanguageNotSupportedError passes, every
  other exception is wrapped in AnswerGenerationError.
\<close>

definition wrap_generation_error :: "Question \<Rightarrow> exc \<Rightarrow> exc" where
  "wrap_generation_error q e =
     (if isinstance e ''LanguageNotSupportedError'' then e
      else AnswerGenerationError
             (''Failed to generate answer for question '' @ quoted (q_id q) @ '': '' @ exc_str e))"

definition generate_answer ::
  "env \<Rightarrow> AnswerGenerator \<Rightarrow> Question \<Rightarrow> string \<Rightarrow> world \<Rightarrow> world \<times> (exc + Answer)" where
  "generate_answer env gen q target_language w =
     (if \<not> is_supported target_language then
        (w, Inl (LanguageNotSupportedError
                   (''Language '' @ quoted target_language @ '' is not supported. ''
                    @ ''Use LanguageService.get_supported_languages() to see available languages.'')))
      else
        let w1 = gen_emit_progress gen ''knowledge_search'' 10
                   (''Searching knowledge base for question '' @ q_id q) w;
            knowledge_entries = search_knowledge_base env q;
            w2 = gen_emit_progress gen ''context_building'' 20
                   (''Building context for question '' @ q_id q) w1
        in (case build_context env knowledge_entries of
              Inl e \<Rightarrow> (w2, Inl (wrap_generation_error q e))
            | Inr context \<Rightarrow>
               (let w3 = gen_emit_progress gen ''answer_generation'' 40
                           (''Generating answer for question '' @ q_id q) w2
                in (case generate_answer_with_llm env gen q context target_language
                           knowledge_entries w3 of
                      (w4, Inl e) \<Rightarrow> (w4, Inl (wrap_generation_error q e))
                    | (w4, Inr answer_content) \<Rightarrow>
                       (let w5 = gen_emit_progress gen ''visual_detection'' 70
                                   (''Detecting visual elements for question '' @ q_id q) w4
                        in (case detect_visual_elements env q answer_content target_language of
                              Inl e \<Rightarrow> (w5, Inl (wrap_generation_error q e))
                            | Inr ves \<Rightarrow>
                               (let w6 = gen_emit_progress gen ''citation_generation'' 90
                                           (''Generating citations for question '' @ q_id q) w5;
                                    knowledge_source_ids = map ke_id knowledge_entries;
                                    refs = generate_references knowledge_entries;
                                    w7 = gen_emit_progress gen ''complete'' 100
                                           (''Completed answer generation for question '' @ q_id q)
                                           w6
                                in (case new_Answer (q_id q) answer_content target_language ves
                                           refs knowledge_source_ids of
                                      Inl e \<Rightarrow> (w7, Inl (wrap_generation_error q e))
                                    | Inr a \<Rightarrow> (w7, Inr a)))))))))"

section \<open>Pipeline (\<open>tasks.py\<close>)\<close>

text \<open>
  \<open>_emit_progress\<close> builds the event with the current time and appends it; the handler
  that only logs a failing store is not reachable with the reliable store.
\<close>

definition emit_progress :: "string \<Rightarrow> string \<Rightarrow> int \<Rightarrow> string \<Rightarrow> world \<Rightarrow> world" where
  "emit_progress sid stg pct msg w =
     add_progress_event
       \<lparr>session_id = sid, stage = stg, progress = pct, message = msg, timestamp = clock w\<rparr> w"

text \<open>
  \<open>int(x)\<close> on a number truncates towards zero. The source computes the quotients
  \<open>progress / 100\<close>, \<open>i / len(questions)\<close> and \<open>processed_elements / total_visual_elements\<close>
  in double precision; they are taken as exact rationals here. The two agree after
  truncation: the double product is within \<open>2^-46\<close> of the exact one, an integral exact
  value \<open>k\<close> is hit exactly (the product depends on \<open>k\<close> only), and otherwise the exact
  value keeps a distance of at least \<open>1/n\<close> from every integer, \<open>n\<close> being the divisor.
\<close>

definition py_trunc :: "rat \<Rightarrow> int" where
  "py_trunc x = (if 0 \<le> x then \<lfloor>x\<rfloor> else \<lceil>x\<rceil>)"

definition answer_progress_callback :: "string \<Rightarrow> string \<Rightarrow> int \<Rightarrow> string \<Rightarrow> world \<Rightarrow> world" where
  "answer_progress_callback sid stg prog msg w =
     (let overall_progress = 20 + py_trunc ((of_int prog / 100) * 40)
      in emit_progress sid stg overall_progress msg w)"

text \<open>
  \<open>_parse_input_file\<close>: a ParseError of the parser passes; for any other failure, also a
  file that cannot be opened, the handler evaluates \<open>ParseError(msg)\<close>, which raises
  TypeError.
\<close>

definition parse_input_file :: "env \<Rightarrow> string \<Rightarrow> string \<Rightarrow> world \<Rightarrow> exc + Question list" where
  "parse_input_file env file_path file_format w =
     (case files w file_path of
        None \<Rightarrow> Inl (ParseError_message_only ''Failed to parse input file: '')
      | Some file_content \<Rightarrow>
          (case parse env file_content file_format of
             Inl e \<Rightarrow>
               if isinstance e ''ParseError'' then Inl e
               else Inl (ParseError_message_only (''Failed to parse input file: '' @ exc_str e))
           | Inr questions \<Rightarrow> Inr questions))"

text \<open>The keys of the user: \<open>if user_id:\<close> is false for \<open>None\<close> and for \<open>0\<close>.\<close>

fun collect_user_keys ::
  "env \<Rightarrow> int \<Rightarrow> string list \<Rightarrow> (string \<times> string) list \<Rightarrow> exc + (string \<times> string) list" where
  "collect_user_keys env uid [] keys = Inr keys"
| "collect_user_keys env uid (prov # provs) keys =
     (case get_user_api_key env uid prov of
        Inl e \<Rightarrow> Inl e
      | Inr key \<Rightarrow>
          collect_user_keys env uid provs
            (if truthy key then AList.update prov (the key) keys else keys))"

definition load_user_api_keys :: "env \<Rightarrow> int option \<Rightarrow> exc + (string \<times> string) list" where
  "load_user_api_keys env user_id =
     (case user_id of
        None \<Rightarrow> Inr []
      | Some uid \<Rightarrow>
          if uid = 0 then Inr []
          else (case session_local env of
                  Some e \<Rightarrow> Inl e
                | None \<Rightarrow>
                    collect_user_keys env uid
                      [''openai'', ''gemini'', ''anthropic'', ''perplexity''] []))"

text \<open>The choice of the provider and of the key, first among the user's keys, then the system's.\<close>

definition choose_provider ::
  "env \<Rightarrow> string \<Rightarrow> (string \<times> string) list \<Rightarrow> string \<times> string option" where
  "choose_provider env prov user_api_keys =
     (let (llm_prov, api_key_override) =
            (if user_api_keys \<noteq> [] then
               (case map_of user_api_keys prov of
                  Some k \<Rightarrow> (prov, Some k)
                | None \<Rightarrow>
                    (case find (\<lambda>p. map_of user_api_keys p \<noteq> None)
                            [''gemini'', ''perplexity'', ''openai'', ''anthropic''] of
                       Some p \<Rightarrow> (p, map_of user_api_keys p)
                     | None \<Rightarrow> (prov, None)))
             else (prov, None))
      in if \<not> truthy api_key_override then
           (if prov = ''gemini'' \<and> gemini_api_key env \<noteq> [] then
              (llm_prov, Some (gemini_api_key env))
            else if prov = ''perplexity'' \<and> perplexity_api_key env \<noteq> [] then
              (llm_prov, Some (perplexity_api_key env))
            else if prov = ''openai'' \<and> openai_api_key env \<noteq> [] then
              (llm_prov, Some (openai_api_key env))
            else if prov = ''anthropic'' \<and> anthropic_api_key env \<noteq> [] then
              (llm_prov, Some (anthropic_api_key env))
            else if gemini_api_key env \<noteq> [] then (''gemini'', Some (gemini_api_key env))
            else if perplexity_api_key env \<noteq> [] then
              (''perplexity'', Some (perplexity_api_key env))
            else if openai_api_key env \<noteq> [] then (''openai'', Some (openai_api_key env))
            else (llm_prov, api_key_override))
         else (llm_prov, api_key_override))"

text \<open>
  Step 2 of the task: the knowledge base, the keys, the answer generator with the
  progress callback of this session, and the remaining services.
\<close>

definition init_services :: "env \<Rightarrow> string \<Rightarrow> string \<Rightarrow> int option \<Rightarrow> exc + AnswerGenerator" where
  "init_services env sid prov user_id =
     (case knowledge_base_init env of
        Some e \<Rightarrow> Inl e
      | None \<Rightarrow>
          (case load_user_api_keys env user_id of
             Inl e \<Rightarrow> Inl e
           | Inr user_api_keys \<Rightarrow>
               (let (llm_prov, api_key_override) = choose_provider env prov user_api_keys
                in (case new_AnswerGenerator env llm_prov default_max_retries
                           (Some (answer_progress_callback sid)) api_key_override of
                      Inl e \<Rightarrow> Inl e
                    | Inr gen \<Rightarrow>
                        (case other_services_init env of
                           Some e \<Rightarrow> Inl e
                         | None \<Rightarrow> Inr gen)))))"

definition question_progress :: "nat \<Rightarrow> nat \<Rightarrow> int" where
  "question_progress i n = 25 + py_trunc ((of_nat i / of_nat n) * 35)"

text \<open>
  The body of the loop of step 3 for question number \<open>i\<close> (counted from 1) of \<open>n\<close>: the
  \<open>try\<close> with its handler, which builds the fallback answer. The result is the list of
  answers so far, or the exception that leaves the loop.
\<close>

definition answer_step ::
  "env \<Rightarrow> string \<Rightarrow> AnswerGenerator \<Rightarrow> string \<Rightarrow> nat \<Rightarrow> nat \<Rightarrow> Question \<Rightarrow> Answer list \<Rightarrow> world
   \<Rightarrow> world \<times> (exc + Answer list)" where
  "answer_step env sid gen target_language n i q answers w =
     (let w1 = emit_progress sid ''generating_answer'' (question_progress i n)
                 (''Generating answer '' @ str_int (int i) @ ''/'' @ str_int (int n)) w
      in (case generate_answer env gen q target_language w1 of
            (w2, Inr a) \<Rightarrow>
              (store_answer sid (int i - 1) (q_text q) (content a)
                 (int (length (visual_elements a))) w2,
               Inr (answers @ [a]))
          | (w2, Inl e) \<Rightarrow>
              (case new_Answer (q_id q) (''Error generating answer: '' @ exc_str e)
                      target_language [] [] [] of
                 Inl e' \<Rightarrow> (w2, Inl e')
               | Inr error_answer \<Rightarrow>
                   (store_answer sid (int i - 1) (q_text q) (content error_answer) 0 w2,
                    Inr (answers @ [error_answer])))))"

fun answer_loop ::
  "env \<Rightarrow> string \<Rightarrow> AnswerGenerator \<Rightarrow> string \<Rightarrow> nat \<Rightarrow> nat \<Rightarrow> Question list \<Rightarrow> Answer list \<Rightarrow> world
   \<Rightarrow> world \<times> (exc + Answer list)" where
  "answer_loop env sid gen target_language n i [] answers w = (w, Inr answers)"
| "answer_loop env sid gen target_language n i (q # qs) answers w =
     (case answer_step env sid gen target_language n i q answers w of
        (w', Inl e) \<Rightarrow> (w', Inl e)
      | (w', Inr answers') \<Rightarrow> answer_loop env sid gen target_language n (Suc i) qs answers' w')"

text \<open>
  Step 4: the diagrams of one answer and of all answers. Only DiagramGenerationError is
  handled (the specification is skipped); any other exception leaves the loops.
\<close>

definition diagram_progress :: "nat \<Rightarrow> nat \<Rightarrow> int" where
  "diagram_progress processed total_ve = 65 + py_trunc ((of_nat processed / of_nat total_ve) * 10)"

fun diagrams_for_specs ::
  "env \<Rightarrow> string \<Rightarrow> nat \<Rightarrow> VisualElementSpec list \<Rightarrow> Diagram list \<Rightarrow> nat \<Rightarrow> world
   \<Rightarrow> world \<times> (exc + Diagram list \<times> nat)" where
  "diagrams_for_specs env sid total_ve [] answer_diagrams processed w =
     (w, Inr (answer_diagrams, processed))"
| "diagrams_for_specs env sid total_ve (spec # specs) answer_diagrams processed w =
     (case generate_diagram env spec of
        Inr diagram \<Rightarrow>
          (let processed' = processed + 1;
               w' = emit_progress sid ''generating_diagram'' (diagram_progress processed' total_ve)
                      (''Generated diagram '' @ str_int (int processed') @ ''/''
                       @ str_int (int total_ve)) w
           in diagrams_for_specs env sid total_ve specs (answer_diagrams @ [diagram]) processed' w')
      | Inl e \<Rightarrow>
          if isinstance e ''DiagramGenerationError''
          then diagrams_for_specs env sid total_ve specs answer_diagrams processed w
          else (w, Inl e))"

fun diagrams_for_answers ::
  "env \<Rightarrow> string \<Rightarrow> nat \<Rightarrow> Answer list \<Rightarrow> (string \<times> Diagram list) list \<Rightarrow> nat \<Rightarrow> world
   \<Rightarrow> world \<times> (exc + (string \<times> Diagram list) list \<times> nat)" where
  "diagrams_for_answers env sid total_ve [] diagrams_by_answer processed w =
     (w, Inr (diagrams_by_answer, processed))"
| "diagrams_for_answers env sid total_ve (a # as) diagrams_by_answer processed w =
     (case diagrams_for_specs env sid total_ve (visual_elements a) [] processed w of
        (w', Inl e) \<Rightarrow> (w', Inl e)
      | (w', Inr (answer_diagrams, processed')) \<Rightarrow>
          diagrams_for_answers env sid total_ve as
            (if answer_diagrams \<noteq> []
             then AList.update (question_id a) answer_diagrams diagrams_by_answer
             else diagrams_by_answer)
            processed' w')"

definition generate_diagrams ::
  "env \<Rightarrow> string \<Rightarrow> Answer list \<Rightarrow> world \<Rightarrow> world \<times> (exc + (string \<times> Diagram list) list)" where
  "generate_diagrams env sid answers w =
     (let total_visual_elements = sum_list (map (\<lambda>a. length (visual_elements a)) answers)
      in if total_visual_elements > 0 then
           (case diagrams_for_answers env sid total_visual_elements answers [] 0 w of
              (w', Inl e) \<Rightarrow> (w', Inl e)
            | (w', Inr (diagrams_by_answer, processed)) \<Rightarrow> (w', Inr diagrams_by_answer))
         else (w, Inr []))"

text \<open>
  The \<open>try\<close> block of \<open>process_question_paper\<close>, written as four consecutive sections, the
  last first: steps 6 and 7 (store the document, write the result, set COMPLETE), steps 4
  and 5 (diagrams and document), steps 2 and 3 (services and answers) and step 1
  (PROCESSING and parsing). Each returns the result of the task or the exception that
  leaves the block.
\<close>

definition store_and_complete ::
  "env \<Rightarrow> string \<Rightarrow> Question list \<Rightarrow> Answer list \<Rightarrow> (string \<times> Diagram list) list \<Rightarrow> PDFDocument
   \<Rightarrow> world \<Rightarrow> world \<times> (exc + result_data)" where
  "store_and_complete env sid questions answers diagrams_by_answer pdf_document w =
     (let w1 = emit_progress sid ''pdf_complete'' 90 ''PDF generation complete'' w;
          w2 = emit_progress sid ''storing_pdf'' 95 ''Storing PDF'' w1
      in (case save_pdf env pdf_document of
            Inl e \<Rightarrow> (w2, Inl e)
          | Inr pdf_ident \<Rightarrow>
              (let w3 = w2\<lparr>pdfs := (pdfs w2)(pdf_ident \<mapsto> pdf_document)\<rparr>;
                   rd = Success_result pdf_ident (filename pdf_document)
                          (page_count pdf_document) (length questions) (length answers)
                          (sum_list (map (\<lambda>(k, d). length d) diagrams_by_answer));
                   w4 = store_result sid rd w3;
                   w5 = update_session_status sid COMPLETE w4;
                   w6 = emit_progress sid ''complete'' 100 ''Processing complete'' w5
               in (w6, Inr rd))))"

definition diagrams_and_pdf ::
  "env \<Rightarrow> string \<Rightarrow> string \<Rightarrow> Question list \<Rightarrow> Answer list \<Rightarrow> world
   \<Rightarrow> world \<times> (exc + result_data)" where
  "diagrams_and_pdf env sid target_language questions answers w =
     (let w1 = emit_progress sid ''answers_complete'' 60
                 (''Successfully generated '' @ str_int (int (length answers)) @ '' answers'') w;
          w2 = emit_progress sid ''generating_diagrams'' 65 ''Generating diagrams'' w1
      in (case generate_diagrams env sid answers w2 of
            (w3, Inl e) \<Rightarrow> (w3, Inl e)
          | (w3, Inr diagrams_by_answer) \<Rightarrow>
              (let w4 = emit_progress sid ''diagrams_complete'' 75
                          ''Diagram generation complete'' w3;
                   w5 = emit_progress sid ''generating_pdf'' 80 ''Generating PDF document'' w4
               in (case generate_pdf env questions answers diagrams_by_answer target_language of
                     Inl e \<Rightarrow> (w5, Inl e)
                   | Inr pdf_document \<Rightarrow>
                       store_and_complete env sid questions answers diagrams_by_answer
                         pdf_document w5))))"

definition services_and_answers ::
  "env \<Rightarrow> string \<Rightarrow> string \<Rightarrow> string \<Rightarrow> int option \<Rightarrow> Question list \<Rightarrow> world
   \<Rightarrow> world \<times> (exc + result_data)" where
  "services_and_answers env sid target_language prov user_id questions w =
     (let w1 = emit_progress sid ''parsing_complete'' 15
                 (''Successfully parsed '' @ str_int (int (length questions)) @ '' questions'') w;
          w2 = emit_progress sid ''initializing_services'' 20 ''Initializing services'' w1
      in (case init_services env sid prov user_id of
            Inl e \<Rightarrow> (w2, Inl e)
          | Inr gen \<Rightarrow>
              (let w3 = emit_progress sid ''generating_answers'' 25
                          (''Generating answers for '' @ str_int (int (length questions))
                           @ '' questions'') w2
               in (case answer_loop env sid gen target_language (length questions) 1
                          questions [] w3 of
                     (w4, Inl e) \<Rightarrow> (w4, Inl e)
                   | (w4, Inr answers) \<Rightarrow>
                       diagrams_and_pdf env sid target_language questions answers w4))))"

definition try_block ::
  "env \<Rightarrow> string \<Rightarrow> string \<Rightarrow> string \<Rightarrow> string \<Rightarrow> string \<Rightarrow> int option \<Rightarrow> world
   \<Rightarrow> world \<times> (exc + result_data)" where
  "try_block env sid file_path file_format target_language prov user_id w =
     (let w1 = update_session_status sid PROCESSING w;
          w2 = emit_progress sid ''initializing'' 0 ''Initializing processing'' w1;
          w3 = emit_progress sid ''parsing'' 5 ''Parsing input file'' w2
      in (case parse_input_file env file_path file_format w3 of
            Inl e \<Rightarrow> (w3, Inl e)
          | Inr questions \<Rightarrow>
              if questions = []
              then (w3, Inl (ParseError_message_only ''No questions found in the input file''))
              else services_and_answers env sid target_language prov user_id questions w3))"

text \<open>The handler \<open>except Exception as e\<close> of the task, up to its \<open>raise\<close>.\<close>

definition except_block :: "env \<Rightarrow> string \<Rightarrow> exc \<Rightarrow> world \<Rightarrow> world" where
  "except_block env sid e w =
     (let error_message = exc_str e;
          error_data = Error_result error_message (exc_type e) (format_exc env e);
          w1 = store_result sid error_data w;
          w2 = update_session_status sid ERROR w1
      in emit_progress sid ''error'' 0 (''Processing failed: '' @ error_message) w2)"

text \<open>
  The \<open>finally\<close> block: \<open>os.remove\<close> when the path exists. The file system is reliable:
  removing an existing file succeeds.
\<close>

definition finally_block :: "string \<Rightarrow> world \<Rightarrow> world" where
  "finally_block file_path w =
     (if files w file_path \<noteq> None
      then w\<lparr>files := (files w)(file_path := None),
             history := history w @ [FileRemove file_path]\<rparr>
      else w)"

text \<open>
  The task: \<open>Inr\<close> is the dictionary it returns, \<open>Inl\<close> the exception it raises again.
\<close>

definition process_question_paper ::
  "env \<Rightarrow> string \<Rightarrow> string \<Rightarrow> string \<Rightarrow> string \<Rightarrow> string \<Rightarrow> int option \<Rightarrow> world
   \<Rightarrow> world \<times> (exc + result_data)" where
  "process_question_paper env sid file_path file_format target_language prov user_id w =
     (case try_block env sid file_path file_format target_language prov user_id w of
        (w1, Inr rd) \<Rightarrow> (finally_block file_path w1, Inr rd)
      | (w1, Inl e) \<Rightarrow> (finally_block file_path (except_block env sid e w1), Inl e))"

section \<open>Regeneration endpoint (\<open>main.py\<close>)\<close>












section \<open>Example inputs\<close>

text \<open>
  A world with one uploaded file and an otherwise empty store, and collaborators that
  all succeed: the parser finds one question, the provider answers at once.
\<close>

definition example_world :: world where
  "example_world =
     \<lparr>hashes = (\<lambda>k. []), progress_lists = (\<lambda>k. []), answers_lists = (\<lambda>k. []),
      results = Map.empty, files = [''uploads/sess-0001.txt'' \<mapsto> ''1. What is a stack?''],
      pdfs = Map.empty, clock = ''2024-01-01T00:00:00'', history = []\<rparr>"

definition example_env :: env where
  "example_env =
     \<lparr>parse = (\<lambda>c f. Inr [\<lparr>q_id = ''q1'', q_text = ''What is a stack?'', q_context = None\<rparr>]),
      format_exc = (\<lambda>e. ''Traceback''),
      knowledge_base_init = None,
      kb_search = (\<lambda>t. Inr []),
      build_context = (\<lambda>es. Inr []),
      build_prompt = (\<lambda>q c l es. Inr (q_text q)),
      provider = (\<lambda>p n pr. Inr ''A stack is a list.''),
      detect_visual_elements = (\<lambda>q a l. Inr []),
      generate_diagram = (\<lambda>s. Inl (Exc ''DiagramGenerationError'' ''no renderer'')),
      generate_pdf = (\<lambda>qs as ds l.
         Inr \<lparr>pdf_content = ''%PDF'', filename = ''answers.pdf'', page_count = 1\<rparr>),
      save_pdf = (\<lambda>d. Inr ''pdf_1''),
      session_local = None,
      get_user_api_key = (\<lambda>u p. Inr None),
      llm_client_init = (\<lambda>p k. None),
      other_services_init = None,
      openai_api_key = [], anthropic_api_key = [], gemini_api_key = ''key'',
      perplexity_api_key = [],
      getenv = (\<lambda>v. None)\<rparr>"

text \<open>The same with a provider that fails at every attempt, and with a parser that
  finds no question.\<close>

definition failing_env :: env where
  "failing_env = example_env\<lparr>provider := (\<lambda>p n pr. Inl (Exc ''TimeoutError'' ''timed out''))\<rparr>"

definition empty_env :: env where
  "empty_env = example_env\<lparr>parse := (\<lambda>c f. Inr [])\<rparr>"

definition example_generator :: AnswerGenerator where
  "example_generator =
     \<lparr>llm_provider = ''gemini'', max_retries = 3, progress_callback = None\<rparr>"

text \<open>
  The task run on the three sets of collaborators, a world in which the session has been
  created, one in which it also has two answer previews, the same a day later, and the
  question of the example parser.
\<close>

definition example_run :: "world \<times> (exc + result_data)" where
  "example_run =
     process_question_paper example_env ''sess-0001'' ''uploads/sess-0001.txt'' ''text'' ''en''
       ''gemini'' None example_world"

definition failing_run :: "world \<times> (exc + result_data)" where
  "failing_run =
     process_question_paper failing_env ''sess-0001'' ''uploads/sess-0001.txt'' ''text'' ''en''
       ''gemini'' None example_world"

definition empty_run :: "world \<times> (exc + result_data)" where
  "empty_run =
     process_question_paper empty_env ''sess-0001'' ''uploads/sess-0001.txt'' ''text'' ''en''
       ''gemini'' None example_world"

definition created_world :: world where
  "created_world = snd (create_session ''uuid'' (Some ''sess-0001'') ''en'' None example_world)"




section \<open>Notions used to state the properties\<close>

text \<open>The status writes for one session in a history, in order.\<close>

fun status_writes :: "string \<Rightarrow> effect list \<Rightarrow> SessionStatus list" where
  "status_writes sid [] = []"
| "status_writes sid (StatusWrite s st # es) =
     (if s = sid then st # status_writes sid es else status_writes sid es)"
| "status_writes sid (e # es) = status_writes sid es"



text \<open>The calls of \<open>os.remove\<close> on one path in a history.\<close>

definition removals :: "string \<Rightarrow> effect list \<Rightarrow> nat" where
  "removals path h = length (filter (\<lambda>e. e = FileRemove path) h)"

text \<open>
  The formula of the specification for the progress reporter:
  \<open>lo + round((local/100) * (hi-lo))\<close>.
\<close>

definition spec_global_progress :: "int \<Rightarrow> int \<Rightarrow> int \<Rightarrow> int" where
  "spec_global_progress lo hi loc = lo + round ((of_int loc / 100 :: rat) * of_int (hi - lo))"

text \<open>
  The effects of a retry loop that makes \<open>n\<close> attempts: a provider call per attempt, and
  after attempt \<open>k\<close> (counted from 0) of a loop that goes on, a sleep of \<open>2 ^ k\<close>.
\<close>

fun attempts_trace :: "string \<Rightarrow> string \<Rightarrow> nat \<Rightarrow> nat \<Rightarrow> effect list" where
  "attempts_trace prov prompt k 0 = []"
| "attempts_trace prov prompt k (Suc 0) = [ProviderCall prov prompt]"
| "attempts_trace prov prompt k (Suc (Suc n)) =
     ProviderCall prov prompt # Sleep (2 ^ k) # attempts_trace prov prompt (Suc k) (Suc n)"

text \<open>
  What a run adds to the history, to the progress log of a session and to its answer
  previews: the part of the later list behind the earlier one.
\<close>

definition new_history :: "world \<Rightarrow> world \<Rightarrow> effect list" where
  "new_history w w' = drop (length (history w)) (history w')"

definition new_events :: "string \<Rightarrow> world \<Rightarrow> world \<Rightarrow> ProgressEvent list" where
  "new_events sid w w' =
     drop (length (progress_lists w (get_progress_key sid))) (progress_lists w' (get_progress_key sid))"

definition new_answers :: "string \<Rightarrow> world \<Rightarrow> world \<Rightarrow> AnswerPreview list" where
  "new_answers sid w w' =
     drop (length (answers_lists w (get_answers_key sid))) (answers_lists w' (get_answers_key sid))"

fun llm_effect :: "effect \<Rightarrow> bool" where
  "llm_effect (ProviderCall p q) = True"
| "llm_effect (Sleep n) = True"
| "llm_effect e = False"

text \<open>
  \<open>stepped sid w evs as h w'\<close>: the world \<open>w'\<close> is \<open>w\<close> with the progress events \<open>evs\<close> and
  the answer previews \<open>as\<close> appended for session \<open>sid\<close> and the effects \<open>h\<close> appended to
  the history; hashes, results and stored documents may differ, the files and the clock
  do not.
\<close>

definition stepped ::
  "string \<Rightarrow> world \<Rightarrow> ProgressEvent list \<Rightarrow> AnswerPreview list \<Rightarrow> effect list \<Rightarrow> world \<Rightarrow> bool" where
  "stepped sid w evs as h w' \<longleftrightarrow>
     (\<exists>hs rs ps.
        w' = w\<lparr>hashes := hs,
                progress_lists := (progress_lists w)(get_progress_key sid :=
                   progress_lists w (get_progress_key sid) @ evs),
                answers_lists := (answers_lists w)(get_answers_key sid :=
                   answers_lists w (get_answers_key sid) @ as),
                results := rs, pdfs := ps,
                history := history w @ h\<rparr>)"

text \<open>
  The steps of one call of the answer generator: progress events between 24 and 60 and
  effects of the retry loop only.
\<close>

definition generator_steps :: "string \<Rightarrow> world \<Rightarrow> world \<Rightarrow> bool" where
  "generator_steps sid w w' \<longleftrightarrow>
     (\<exists>evs h. stepped sid w evs [] h w' \<and> list_all llm_effect h
        \<and> list_all (\<lambda>e. 24 \<le> progress e \<and> progress e \<le> 60) evs)"

text \<open>The preview that \<open>store_answer\<close> writes for question number \<open>j\<close> (counted from 0).\<close>

definition preview_of :: "world \<Rightarrow> nat \<Rightarrow> Question \<Rightarrow> Answer \<Rightarrow> AnswerPreview" where
  "preview_of w j q a =
     \<lparr>index = int j, question = q_text q, answer = content a,
      diagrams_count = int (length (visual_elements a)), ap_timestamp = clock w\<rparr>"

text \<open>\<open>stepped\<close> with the percentages of the appended events only.\<close>

definition stepped_pct ::
  "string \<Rightarrow> world \<Rightarrow> int list \<Rightarrow> AnswerPreview list \<Rightarrow> effect list \<Rightarrow> world \<Rightarrow> bool" where
  "stepped_pct sid w ps as h w' \<longleftrightarrow> (\<exists>evs. stepped sid w evs as h w' \<and> map progress evs = ps)"

text \<open>
  The fields of a session that \<open>create_session\<close> wrote at the time \<open>created\<close>, with the
  status \<open>st\<close>; and the session after the status updates \<open>sts\<close>, in order.
\<close>

definition session_record ::
  "string \<Rightarrow> SessionStatus \<Rightarrow> string \<Rightarrow> string \<Rightarrow> string option \<Rightarrow> (string \<times> string) list" where
  "session_record sid st lang created metadata =
     [(''session_id'', sid), (''status'', status_value st), (''language'', lang),
      (''created_at'', created),
      (''metadata'', (case metadata of None \<Rightarrow> ''{}'' | Some m \<Rightarrow> m))]"

definition status_updates :: "string \<Rightarrow> SessionStatus list \<Rightarrow> world \<Rightarrow> world" where
  "status_updates sid sts w = foldl (\<lambda>w' st. update_session_status sid st w') w sts"

text \<open>
  What a completed run leaves in the store: the status \<open>complete\<close> and the result with
  the number of questions.
\<close>

definition completed :: "string \<Rightarrow> world \<Rightarrow> result_data \<Rightarrow> nat \<Rightarrow> bool" where
  "completed sid w' rd n \<longleftrightarrow>
     hget w' (get_session_key sid) ''status'' = Some (status_value COMPLETE)
     \<and> results w' (get_result_key sid) = Some rd
     \<and> questions_processed rd = n"

section \<open>Properties of the session store\<close>

lemma hashes_hset:
  "hashes (hset key f v w) = (hashes w)(key := AList.update f v (hashes w key))"
  by (simp add: hset_def)

lemma hget_hset:
  "hget (hset key f v w) key' f' =
     (if key' = key \<and> f' = f then Some v else hget w key' f')"
  by (simp add: hget_def hset_def update_conv')

lemma map_of_update:
  "map_of (AList.update k v al) k' = (if k' = k then Some v else map_of al k')"
  by (simp add: update_conv')

lemma progress_lists_emit_progress:
  "progress_lists (emit_progress sid stg pct msg w) =
     (progress_lists w)(get_progress_key sid :=
        progress_lists w (get_progress_key sid)
        @ [\<lparr>session_id = sid, stage = stg, progress = pct, message = msg, timestamp = clock w\<rparr>])"
  by (simp add: emit_progress_def add_progress_event_def hset_def Let_def)

lemma digit_val_digit: "k < 10 \<Longrightarrow> digit_val (''0123456789'' ! k) = k"
proof -
  assume "k < 10"
  then consider "k = 0" | "k = 1" | "k = 2" | "k = 3" | "k = 4" | "k = 5" | "k = 6" | "k = 7"
    | "k = 8" | "k = 9" by atomize_elim arith
  then show ?thesis by cases (simp_all add: digit_val_def)
qed

lemma is_digit_digit: "k < 10 \<Longrightarrow> is_digit (''0123456789'' ! k)"
proof -
  assume "k < 10"
  then consider "k = 0" | "k = 1" | "k = 2" | "k = 3" | "k = 4" | "k = 5" | "k = 6" | "k = 7"
    | "k = 8" | "k = 9" by atomize_elim arith
  then show ?thesis by cases (simp_all add: is_digit_def)
qed

lemma digit_not_int_space: "is_digit c \<Longrightarrow> \<not> int_space c"
  by (auto simp: is_digit_def int_space_def)

lemma str_nat_digits: "str_nat n \<noteq> [] \<and> list_all is_digit (str_nat n)"
proof (induction n rule: str_nat.induct)
  case (1 n)
  show ?case
  proof (cases "n < 10")
    case True
    then show ?thesis using is_digit_digit[of n] by (subst str_nat.simps, subst (2) str_nat.simps) simp
  next
    case False
    have "n mod 10 < 10" by simp
    from is_digit_digit[OF this] 1[OF False] False
    show ?thesis by (subst str_nat.simps, subst (2) str_nat.simps) simp
  qed
qed

lemma digits_from_digits:
  "list_all is_digit ds \<Longrightarrow>
     digits_from acc ds = Some (foldl (\<lambda>a c. 10 * a + digit_val c) acc ds)"
  by (induction acc ds rule: digits_from.induct) simp_all

lemma foldl_str_nat: "foldl (\<lambda>a c. 10 * a + digit_val c) 0 (str_nat n) = n"
proof (induction n rule: str_nat.induct)
  case (1 n)
  show ?case
  proof (cases "n < 10")
    case True
    then show ?thesis using digit_val_digit[of n] by (subst str_nat.simps) simp
  next
    case False
    have "n mod 10 < 10" by simp
    from digit_val_digit[OF this] 1[OF False] False
    show ?thesis by (subst str_nat.simps) simp
  qed
qed

lemma py_nat_str_nat: "py_nat (str_nat n) = Some n"
proof -
  from str_nat_digits[of n] obtain c cs where s: "str_nat n = c # cs" and c: "is_digit c"
    and cs: "list_all is_digit cs" by (cases "str_nat n") auto
  have "py_nat (str_nat n) = Some (foldl (\<lambda>a c. 10 * a + digit_val c) 0 (c # cs))"
    unfolding s using c digits_from_digits[OF cs] by simp
  then show ?thesis using foldl_str_nat[of n] s by simp
qed

lemma dropWhile_hd: "xs \<noteq> [] \<Longrightarrow> \<not> P (hd xs) \<Longrightarrow> dropWhile P xs = xs"
  by (cases xs) simp_all

lemma int_strip_id:
  assumes "s \<noteq> []" and "\<not> int_space (hd s)" and "\<not> int_space (last s)"
  shows "int_strip s = s"
proof -
  have a: "dropWhile int_space s = s" using assms(1,2) by (rule dropWhile_hd)
  have "rev s \<noteq> []" and "\<not> int_space (hd (rev s))" using assms(1,3) by (simp_all add: hd_rev)
  then have "dropWhile int_space (rev s) = rev s" by (rule dropWhile_hd)
  with a show ?thesis by (simp add: int_strip_def)
qed

lemma py_int_str_int: "py_int (str_int i) = Some i"
proof -
  have ne: "str_nat n \<noteq> []" and dg: "list_all is_digit (str_nat n)" for n
    using str_nat_digits[of n] by blast+
  have hd_d: "is_digit (hd (str_nat n))" for n
    using ne[of n] dg[of n] by (cases "str_nat n") (simp_all del: str_nat.simps)
  have last_d: "is_digit (last (str_nat n))" for n
    using ne[of n] dg[of n] by (simp del: str_nat.simps add: list_all_iff)
  show ?thesis
  proof (cases "i < 0")
    case True
    let ?m = "nat (- i)"
    let ?s = "CHR ''-'' # str_nat ?m"
    have "?s \<noteq> []" by (simp del: str_nat.simps)
    moreover have "\<not> int_space (hd ?s)" by (simp del: str_nat.simps add: int_space_def)
    moreover have "\<not> int_space (last ?s)"
      using digit_not_int_space[OF last_d[of ?m]] ne[of ?m] by (simp del: str_nat.simps)
    ultimately have "int_strip ?s = ?s" by (rule int_strip_id)
    then have "py_int ?s = Some (- int ?m)"
      unfolding py_int_def using py_nat_str_nat[of ?m] by (simp del: str_nat.simps)
    moreover have "str_int i = ?s" using True by (simp del: str_nat.simps add: str_int_def)
    ultimately show ?thesis using True by (simp del: str_nat.simps)
  next
    case False
    let ?s = "str_nat (nat i)"
    have st: "int_strip ?s = ?s"
      using ne[of "nat i"] digit_not_int_space[OF hd_d[of "nat i"]]
        digit_not_int_space[OF last_d[of "nat i"]]
      by (rule int_strip_id)
    obtain c cs where s: "?s = c # cs" using ne[of "nat i"] by (cases ?s) auto
    have c: "is_digit c" using hd_d[of "nat i"] unfolding s by simp
    then have "c \<noteq> CHR ''-''" "c \<noteq> CHR ''+''" by (auto simp: is_digit_def)
    then have "py_int ?s = map_option int (py_nat ?s)"
      unfolding py_int_def st unfolding s by simp
    then have "py_int ?s = Some (int (nat i))"
      using py_nat_str_nat[of "nat i"] by (simp del: str_nat.simps)
    moreover have "str_int i = ?s" using False by (simp del: str_nat.simps add: str_int_def)
    ultimately show ?thesis using False by (simp del: str_nat.simps)
  qed
qed

lemma hashes_update_session_status:
  "hashes (update_session_status sid st w) =
     (hashes w)(get_session_key sid := AList.update ''status'' (status_value st)
                                         (hashes w (get_session_key sid)))"
  by (simp add: update_session_status_def hset_def)

lemma hashes_status_updates:
  assumes "hashes w (get_session_key sid) = session_record sid st lang created metadata"
  shows "hashes (status_updates sid sts w) (get_session_key sid)
           = session_record sid (last (st # sts)) lang created metadata"
  using assms
proof (induction sts arbitrary: w st)
  case Nil
  then show ?case by (simp add: status_updates_def)
next
  case (Cons a sts)
  have "hashes (update_session_status sid a w) (get_session_key sid)
          = session_record sid a lang created metadata"
    unfolding hashes_update_session_status using Cons.prems by (simp add: session_record_def)
  from Cons.IH[OF this] show ?case by (simp add: status_updates_def)
qed

lemma hashes_create_session:
  assumes "hashes w (get_session_key (fst (create_session new_uuid sid_opt lang metadata w))) = []"
  shows "hashes (snd (create_session new_uuid sid_opt lang metadata w))
           (get_session_key (fst (create_session new_uuid sid_opt lang metadata w)))
         = session_record (fst (create_session new_uuid sid_opt lang metadata w)) PENDING lang
             (clock w) metadata"
  using assms by (simp add: create_session_def Let_def hset_def session_record_def)

lemma status_value_not_empty: "status_value st \<noteq> []"
  by (cases st) simp_all

lemma latest_progress_of_record:
  assumes "hashes w (get_session_key sid) = session_record sid st lang created metadata"
  shows "get_session sid w = Some (session_record sid st lang created metadata)"
    and "get_latest_progress sid w = Inr None"
    and "get_latest_progress sid (emit_progress sid stg pct msg w)
           = Inr (Some \<lparr>lp_progress = pct, lp_stage = (if stg \<noteq> [] then stg else ''pending''),
                         lp_status = status_value st\<rparr>)"
proof -
  show "get_session sid w = Some (session_record sid st lang created metadata)"
    using assms by (simp add: get_session_def Let_def session_record_def)
  show "get_latest_progress sid w = Inr None"
    using assms by (simp add: get_latest_progress_def Let_def hget_def session_record_def)
  let ?w = "emit_progress sid stg pct msg w"
  have h: "hashes ?w (get_session_key sid)
             = AList.update ''current_stage'' stg
                 (AList.update ''progress'' (str_int pct)
                    (session_record sid st lang created metadata))"
    using assms by (simp add: emit_progress_def add_progress_event_def Let_def hset_def)
  have ne: "str_int pct \<noteq> []"
    using str_nat_digits[of "nat pct"] str_nat_digits[of "nat (- pct)"]
    by (simp del: str_nat.simps add: str_int_def)
  have p: "hget ?w (get_session_key sid) ''progress'' = Some (str_int pct)"
    and s: "hget ?w (get_session_key sid) ''current_stage'' = Some stg"
    and t: "hget ?w (get_session_key sid) ''status'' = Some (status_value st)"
    unfolding hget_def h by (simp_all add: map_of_update session_record_def)
  show "get_latest_progress sid ?w
           = Inr (Some \<lparr>lp_progress = pct, lp_stage = (if stg \<noteq> [] then stg else ''pending''),
                         lp_status = status_value st\<rparr>)"
    unfolding get_latest_progress_def Let_def p s t
    using ne py_int_str_int[of pct] status_value_not_empty[of st] by simp
qed

text \<open>
  Claim C9. A session that does not exist answers \<open>None\<close> to \<open>get_session\<close> and to
  \<open>get_latest_progress\<close>. Once \<open>create_session\<close> has written it on an unused key, and
  after any status updates (the task sets PROCESSING before its first event),
  \<open>get_session\<close> answers the record of the session with its current status, while
  \<open>get_latest_progress\<close> still answers \<open>None\<close>, as for a session that does not exist. The
  first progress event makes the projection exist: it holds the percentage and the stage
  of the event and the current status.
\<close>

theorem fresh_session_has_no_latest_progress:
  assumes "hashes w (get_session_key (fst (create_session new_uuid sid_opt lang metadata w))) = []"
  shows "let sid = fst (create_session new_uuid sid_opt lang metadata w);
             w1 = snd (create_session new_uuid sid_opt lang metadata w);
             w2 = status_updates sid sts w1;
             st = last (PENDING # sts)
         in sid = (case sid_opt of None \<Rightarrow> new_uuid | Some s \<Rightarrow> s)
          \<and> get_session sid w = None \<and> get_latest_progress sid w = Inr None
          \<and> get_session sid w1 = Some (session_record sid PENDING lang (clock w) metadata)
          \<and> get_latest_progress sid w1 = Inr None
          \<and> get_session sid w2 = Some (session_record sid st lang (clock w) metadata)
          \<and> get_latest_progress sid w2 = Inr None
          \<and> get_latest_progress sid (emit_progress sid stg pct msg w2)
              = Inr (Some \<lparr>lp_progress = pct,
                            lp_stage = (if stg \<noteq> [] then stg else ''pending''),
                            lp_status = status_value st\<rparr>)"
proof -
  let ?sid = "fst (create_session new_uuid sid_opt lang metadata w)"
  let ?w1 = "snd (create_session new_uuid sid_opt lang metadata w)"
  have sid: "?sid = (case sid_opt of None \<Rightarrow> new_uuid | Some s \<Rightarrow> s)"
    by (simp add: create_session_def Let_def)
  have none: "get_session ?sid w = None" "get_latest_progress ?sid w = Inr None"
    using assms by (simp_all add: get_session_def get_latest_progress_def Let_def hget_def)
  note r1 = hashes_create_session[OF assms]
  note r2 = hashes_status_updates[OF r1, of sts]
  from sid none latest_progress_of_record(1,2)[OF r1] latest_progress_of_record[OF r2]
  show ?thesis unfolding Let_def by simp
qed

text \<open>
  The session of the example, created and then set to PROCESSING, and its first event.
\<close>

theorem fresh_session_has_no_latest_progress_witness:
  "hashes example_world (get_session_key ''sess-0001'') = []
   \<and> get_session ''sess-0001'' example_world = None
   \<and> get_latest_progress ''sess-0001'' example_world = Inr None
   \<and> get_session ''sess-0001'' created_world
       = Some [(''session_id'', ''sess-0001''), (''status'', ''pending''), (''language'', ''en''),
               (''created_at'', ''2024-01-01T00:00:00''), (''metadata'', ''{}'')]
   \<and> get_latest_progress ''sess-0001'' created_world = Inr None
   \<and> get_session ''sess-0001'' (update_session_status ''sess-0001'' PROCESSING created_world)
       = Some [(''session_id'', ''sess-0001''), (''status'', ''processing''), (''language'', ''en''),
               (''created_at'', ''2024-01-01T00:00:00''), (''metadata'', ''{}'')]
   \<and> get_latest_progress ''sess-0001''
        (update_session_status ''sess-0001'' PROCESSING created_world) = Inr None
   \<and> get_latest_progress ''sess-0001''
        (emit_progress ''sess-0001'' ''initializing'' 0 ''Initializing processing''
           (update_session_status ''sess-0001'' PROCESSING created_world))
       = Inr (Some \<lparr>lp_progress = 0, lp_stage = ''initializing'', lp_status = ''processing''\<rparr>)"
proof -
  have a: "hashes example_world (get_session_key
             (fst (create_session ''uuid'' (Some ''sess-0001'') ''en'' None example_world))) = []"
    by (simp add: example_world_def)
  have sid: "fst (create_session ''uuid'' (Some ''sess-0001'') ''en'' None example_world)
               = ''sess-0001''"
    by (simp add: create_session_def Let_def)
  have ck: "clock example_world = ''2024-01-01T00:00:00''" by (simp add: example_world_def)
  note t = fresh_session_has_no_latest_progress[OF a, of "[PROCESSING]" "''initializing''" 0
             "''Initializing processing''", unfolded Let_def sid,
             folded created_world_def]
  from t a[unfolded sid] show ?thesis
    by (simp add: status_updates_def session_record_def ck)
qed

section \<open>Properties of the progress reporter\<close>

lemma py_trunc_floor: "0 \<le> x \<Longrightarrow> py_trunc x = \<lfloor>x\<rfloor>"
  by (simp add: py_trunc_def)

text \<open>
  Claim C4, as stated, fails: for the local percentage 2 the callback appends 20, and the
  formula with \<open>round\<close> gives 21.
\<close>

theorem callback_not_rounding_counterexample:
  "progress (last (progress_lists
       (answer_progress_callback ''sess-0001'' ''knowledge_search'' 2 ''Searching'' example_world)
       (get_progress_key ''sess-0001''))) = 20
   \<and> spec_global_progress 20 60 2 = 21"
  by (simp add: answer_progress_callback_def progress_lists_emit_progress Let_def
        spec_global_progress_def py_trunc_def round_def floor_eq_iff)

text \<open>
  Claim C4, amended. For a local percentage between 0 and 100 the event that the callback
  appends carries \<open>20 + floor((local/100) * (60-20))\<close>: the product is truncated, not
  rounded. The two agree when the local percentage is a multiple of 5, as are the values
  10, 20, 40, 70, 90 and 100 that the answer generator reports.
\<close>

theorem callback_truncates:
  assumes "0 \<le> loc" and "loc \<le> 100"
  shows "progress_lists (answer_progress_callback sid stg loc msg w) (get_progress_key sid) =
           progress_lists w (get_progress_key sid)
           @ [\<lparr>session_id = sid, stage = stg,
                progress = 20 + \<lfloor>(of_int loc / 100 :: rat) * of_int (60 - 20)\<rfloor>,
                message = msg, timestamp = clock w\<rparr>]
         \<and> (5 dvd loc \<longrightarrow>
              20 + \<lfloor>(of_int loc / 100 :: rat) * of_int (60 - 20)\<rfloor> = spec_global_progress 20 60 loc)"
proof -
  have nonneg: "0 \<le> (of_int loc / 100 :: rat) * 40" using assms(1) by simp
  have first: "progress_lists (answer_progress_callback sid stg loc msg w) (get_progress_key sid) =
           progress_lists w (get_progress_key sid)
           @ [\<lparr>session_id = sid, stage = stg,
                progress = 20 + \<lfloor>(of_int loc / 100 :: rat) * of_int (60 - 20)\<rfloor>,
                message = msg, timestamp = clock w\<rparr>]"
    using nonneg
    by (simp add: answer_progress_callback_def progress_lists_emit_progress Let_def py_trunc_floor)
  have second: "20 + \<lfloor>(of_int loc / 100 :: rat) * of_int (60 - 20)\<rfloor> = spec_global_progress 20 60 loc"
    if "5 dvd loc"
  proof -
    from that obtain k where k: "loc = 5 * k" by (auto simp: dvd_def)
    have "(of_int loc / 100 :: rat) * of_int (60 - 20) = of_int (2 * k)" unfolding k by simp
    then show ?thesis
      unfolding spec_global_progress_def by (simp only: round_of_int floor_of_int)
  qed
  from first second show ?thesis by blast
qed

theorem callback_truncates_witness:
  "(0::int) \<le> 10 \<and> (10::int) \<le> 100 \<and> (5::int) dvd 10
   \<and> map progress (progress_lists
        (answer_progress_callback ''sess-0001'' ''knowledge_search'' 10 ''Searching'' example_world)
        (get_progress_key ''sess-0001'')) = [24]
   \<and> spec_global_progress 20 60 10 = 24"
  using callback_truncates [of 10 "''sess-0001''" "''knowledge_search''" "''Searching''" example_world]
  by (simp add: example_world_def)

section \<open>Properties of the retry loop\<close>

lemma attempts_trace_fail_step:
  "0 < n \<Longrightarrow> ProviderCall prov prompt # Sleep (2 ^ k) # attempts_trace prov prompt (Suc k) n
     = attempts_trace prov prompt k (Suc n)"
  by (cases n) simp_all

text \<open>One iteration of the retry loop, by the outcome of the attempt.\<close>

lemma retry_loop_success:
  assumes "attempt_result env (llm_provider gen) prompt (provider_calls w) = Inr response"
  shows "llm_retry_loop env gen prompt (a # rest) last_error w =
           (w\<lparr>history := history w @ [ProviderCall (llm_provider gen) prompt]\<rparr>, last_error, Some response)"
  using assms by (simp add: call_provider_def)

lemma retry_loop_last_failure:
  assumes "attempt_result env (llm_provider gen) prompt (provider_calls w) = Inl e"
    and "\<not> int a < max_retries gen - 1"
  shows "llm_retry_loop env gen prompt (a # rest) last_error w =
           (w\<lparr>history := history w @ [ProviderCall (llm_provider gen) prompt]\<rparr>, Some e, None)"
  using assms by (simp add: call_provider_def)

lemma retry_loop_failure_goes_on:
  assumes "attempt_result env (llm_provider gen) prompt (provider_calls w) = Inl e"
    and "int a < max_retries gen - 1"
  shows "llm_retry_loop env gen prompt (a # rest) last_error w =
           llm_retry_loop env gen prompt rest (Some e)
             (w\<lparr>history := history w @ [ProviderCall (llm_provider gen) prompt, Sleep (2 ^ a)]\<rparr>)"
  using assms by (simp add: call_provider_def sleep_def)

lemma provider_calls_after_attempt:
  "provider_calls (w\<lparr>history := history w @ [ProviderCall p q, Sleep n]\<rparr>) = Suc (provider_calls w)"
  by (simp add: provider_calls_def)

text \<open>
  The loop from attempt \<open>a\<close> on, when every remaining attempt fails, and when attempt
  \<open>j\<close> is the first that succeeds.
\<close>

lemma retry_loop_all_fail:
  assumes "m = nat (max_retries gen)" and "a < m"
    and "\<forall>k. a \<le> k \<and> k < m \<longrightarrow> isl (attempt_result env (llm_provider gen) prompt (provider_calls w + (k - a)))"
  shows "llm_retry_loop env gen prompt [a..<m] last_error w =
          (w\<lparr>history := history w @ attempts_trace (llm_provider gen) prompt a (m - a)\<rparr>,
           Some (projl (attempt_result env (llm_provider gen) prompt (provider_calls w + (m - 1 - a)))),
           None)"
  using assms
proof (induction "m - a" arbitrary: a w last_error)
  case 0
  then show ?case by simp
next
  case (Suc n)
  let ?p = "llm_provider gen"
  have upt: "[a..<m] = a # [Suc a..<m]" using Suc.prems(2) by (simp add: upt_conv_Cons)
  from Suc.prems(3) Suc.prems(2) have "isl (attempt_result env ?p prompt (provider_calls w + (a - a)))"
    by blast
  then obtain e where e: "attempt_result env ?p prompt (provider_calls w) = Inl e"
    by (cases "attempt_result env ?p prompt (provider_calls w)") auto
  show ?case
  proof (cases "Suc a < m")
    case False
    then have am: "m = Suc a" using Suc.prems(2) by simp
    have nc: "\<not> int a < max_retries gen - 1" using am Suc.prems(1) by linarith
    show ?thesis
      unfolding upt retry_loop_last_failure[OF e nc] using am e by simp
  next
    case True
    then have cond: "int a < max_retries gen - 1" using Suc.prems(1) by linarith
    let ?w2 = "w\<lparr>history := history w @ [ProviderCall ?p prompt, Sleep (2 ^ a)]\<rparr>"
    have n: "n = m - Suc a" using Suc.hyps(2) by simp
    have fails: "\<forall>k. Suc a \<le> k \<and> k < m \<longrightarrow> isl (attempt_result env ?p prompt (provider_calls ?w2 + (k - Suc a)))"
    proof (intro allI impI)
      fix k assume k: "Suc a \<le> k \<and> k < m"
      then have "provider_calls ?w2 + (k - Suc a) = provider_calls w + (k - a)"
        unfolding provider_calls_after_attempt by arith
      moreover have "isl (attempt_result env ?p prompt (provider_calls w + (k - a)))"
        using Suc.prems(3) k by simp
      ultimately show "isl (attempt_result env ?p prompt (provider_calls ?w2 + (k - Suc a)))" by simp
    qed
    have IH: "llm_retry_loop env gen prompt [Suc a..<m] (Some e) ?w2 =
          (?w2\<lparr>history := history ?w2 @ attempts_trace ?p prompt (Suc a) (m - Suc a)\<rparr>,
           Some (projl (attempt_result env ?p prompt (provider_calls ?w2 + (m - 1 - Suc a)))),
           None)"
      by (rule Suc.hyps(1)[OF n Suc.prems(1) True fails])
    have idx: "provider_calls ?w2 + (m - 1 - Suc a) = provider_calls w + (m - 1 - a)"
      unfolding provider_calls_after_attempt using True by arith
    have tr: "ProviderCall ?p prompt # Sleep (2 ^ a) # attempts_trace ?p prompt (Suc a) (m - Suc a)
                = attempts_trace ?p prompt a (m - a)"
    proof -
      have "0 < m - Suc a" using True by simp
      then have "ProviderCall ?p prompt # Sleep (2 ^ a) # attempts_trace ?p prompt (Suc a) (m - Suc a)
                = attempts_trace ?p prompt a (Suc (m - Suc a))" by (rule attempts_trace_fail_step)
      moreover have "Suc (m - Suc a) = m - a" using True by simp
      ultimately show ?thesis by simp
    qed
    have w2: "?w2\<lparr>history := history ?w2 @ attempts_trace ?p prompt (Suc a) (m - Suc a)\<rparr>
              = w\<lparr>history := history w @ attempts_trace ?p prompt a (m - a)\<rparr>"
      using tr by simp
    show ?thesis
      unfolding upt retry_loop_failure_goes_on[OF e cond] IH idx w2 by (rule refl)
  qed
qed


lemma retry_loop_first_success:
  assumes "m = nat (max_retries gen)" and "a \<le> j" and "j < m"
    and "\<forall>k. a \<le> k \<and> k < j \<longrightarrow> isl (attempt_result env (llm_provider gen) prompt (provider_calls w + (k - a)))"
    and "attempt_result env (llm_provider gen) prompt (provider_calls w + (j - a)) = Inr response"
  shows "\<exists>last. llm_retry_loop env gen prompt [a..<m] last_error w =
          (w\<lparr>history := history w @ attempts_trace (llm_provider gen) prompt a (Suc j - a)\<rparr>,
           last, Some response)"
  using assms
proof (induction "j - a" arbitrary: a w last_error)
  case 0
  then have ja: "j = a" by simp
  have upt: "[a..<m] = a # [Suc a..<m]" using "0.prems"(3) ja by (simp add: upt_conv_Cons)
  have r: "attempt_result env (llm_provider gen) prompt (provider_calls w) = Inr response"
    using "0.prems"(5) ja by simp
  show ?case unfolding upt retry_loop_success[OF r] using ja by simp
next
  case (Suc n)
  let ?p = "llm_provider gen"
  have lt: "a < j" using Suc.hyps(2) by simp
  then have am: "a < m" using Suc.prems(3) by simp
  have upt: "[a..<m] = a # [Suc a..<m]" using am by (simp add: upt_conv_Cons)
  have "isl (attempt_result env ?p prompt (provider_calls w + (a - a)))"
    using Suc.prems(4) lt by blast
  then obtain e where e: "attempt_result env ?p prompt (provider_calls w) = Inl e"
    by (cases "attempt_result env ?p prompt (provider_calls w)") auto
  have cond: "int a < max_retries gen - 1" using lt Suc.prems(1,3) by linarith
  let ?w2 = "w\<lparr>history := history w @ [ProviderCall ?p prompt, Sleep (2 ^ a)]\<rparr>"
  have n: "n = j - Suc a" using Suc.hyps(2) by simp
  have le: "Suc a \<le> j" using lt by simp
  have fails: "\<forall>k. Suc a \<le> k \<and> k < j \<longrightarrow> isl (attempt_result env ?p prompt (provider_calls ?w2 + (k - Suc a)))"
  proof (intro allI impI)
    fix k assume k: "Suc a \<le> k \<and> k < j"
    then have "provider_calls ?w2 + (k - Suc a) = provider_calls w + (k - a)"
      unfolding provider_calls_after_attempt by arith
    moreover have "isl (attempt_result env ?p prompt (provider_calls w + (k - a)))"
      using Suc.prems(4) k by simp
    ultimately show "isl (attempt_result env ?p prompt (provider_calls ?w2 + (k - Suc a)))" by simp
  qed
  have "provider_calls ?w2 + (j - Suc a) = provider_calls w + (j - a)"
    unfolding provider_calls_after_attempt using le by arith
  then have succ: "attempt_result env ?p prompt (provider_calls ?w2 + (j - Suc a)) = Inr response"
    using Suc.prems(5) by simp
  from Suc.hyps(1)[OF n Suc.prems(1) le Suc.prems(3) fails succ]
  obtain last where IH: "llm_retry_loop env gen prompt [Suc a..<m] (Some e) ?w2 =
          (?w2\<lparr>history := history ?w2 @ attempts_trace ?p prompt (Suc a) (Suc j - Suc a)\<rparr>,
           last, Some response)" by blast
  have tr: "ProviderCall ?p prompt # Sleep (2 ^ a) # attempts_trace ?p prompt (Suc a) (Suc j - Suc a)
                = attempts_trace ?p prompt a (Suc j - a)"
  proof -
    have "0 < Suc j - Suc a" using lt by simp
    then have "ProviderCall ?p prompt # Sleep (2 ^ a) # attempts_trace ?p prompt (Suc a) (Suc j - Suc a)
                = attempts_trace ?p prompt a (Suc (Suc j - Suc a))" by (rule attempts_trace_fail_step)
    moreover have "Suc (Suc j - Suc a) = Suc j - a" using lt by simp
    ultimately show ?thesis by simp
  qed
  have w2: "?w2\<lparr>history := history ?w2 @ attempts_trace ?p prompt (Suc a) (Suc j - Suc a)\<rparr>
              = w\<lparr>history := history w @ attempts_trace ?p prompt a (Suc j - a)\<rparr>"
    using tr by simp
  show ?case
    unfolding upt retry_loop_failure_goes_on[OF e cond] IH w2 by blast
qed

lemma provider_calls_attempts_trace:
  "length (filter is_provider_call (attempts_trace prov prompt k n)) = n"
  by (induction prov prompt k n rule: attempts_trace.induct) simp_all

lemma provider_calls_extended:
  "provider_calls (w\<lparr>history := history w @ attempts_trace prov prompt k n\<rparr>) = provider_calls w + n"
  by (simp add: provider_calls_def provider_calls_attempts_trace)

text \<open>
  Claim C5. The retry loop makes at most \<open>max_retries\<close> attempts (3 by default). When every
  attempt fails it makes exactly that many, sleeps \<open>2 ^ k\<close> after failed attempt \<open>k\<close>
  when another follows (1, 2, 4, ...), and raises one AnswerGenerationError whose text
  ends with the text of the last error; nothing happens after the last attempt. When
  attempt \<open>j\<close> is the first to succeed, its response is returned after \<open>j + 1\<close> attempts
  and the \<open>j\<close> sleeps between them.
\<close>

theorem retry_is_bounded_with_backoff:
  "provider_calls (fst (retry_with_backoff env gen prompt w))
     \<le> provider_calls w + nat (max_retries gen)
   \<and> (max_retries gen \<le> 0 \<longrightarrow>
        retry_with_backoff env gen prompt w =
          (w, Inl (AnswerGenerationError
                     (''Failed to generate answer after '' @ str_int (max_retries gen)
                      @ '' attempts. Last error: None''))))
   \<and> (0 < max_retries gen
        \<and> (\<forall>k < nat (max_retries gen).
              isl (attempt_result env (llm_provider gen) prompt (provider_calls w + k))) \<longrightarrow>
        retry_with_backoff env gen prompt w =
          (w\<lparr>history := history w
                @ attempts_trace (llm_provider gen) prompt 0 (nat (max_retries gen))\<rparr>,
           Inl (AnswerGenerationError
                  (''Failed to generate answer after '' @ str_int (max_retries gen)
                   @ '' attempts. Last error: ''
                   @ exc_str (projl (attempt_result env (llm_provider gen) prompt
                        (provider_calls w + (nat (max_retries gen) - 1))))))))
   \<and> (\<forall>j response.
        j < nat (max_retries gen)
        \<and> (\<forall>k < j. isl (attempt_result env (llm_provider gen) prompt (provider_calls w + k)))
        \<and> attempt_result env (llm_provider gen) prompt (provider_calls w + j) = Inr response \<longrightarrow>
        retry_with_backoff env gen prompt w =
          (w\<lparr>history := history w @ attempts_trace (llm_provider gen) prompt 0 (Suc j)\<rparr>,
           Inr response))
   \<and> attempts_trace (llm_provider gen) prompt 0 3 =
        [ProviderCall (llm_provider gen) prompt, Sleep 1,
         ProviderCall (llm_provider gen) prompt, Sleep 2,
         ProviderCall (llm_provider gen) prompt]
   \<and> default_max_retries = 3"
proof -
  let ?m = "nat (max_retries gen)"
  let ?p = "llm_provider gen"
  let ?r = "\<lambda>k. attempt_result env ?p prompt (provider_calls w + k)"
  have zero: "retry_with_backoff env gen prompt w =
          (w, Inl (AnswerGenerationError
                     (''Failed to generate answer after '' @ str_int (max_retries gen)
                      @ '' attempts. Last error: None'')))" if "max_retries gen \<le> 0"
    using that by (simp add: retry_with_backoff_def py_range_def str_opt_exc_def)
  have allfail: "retry_with_backoff env gen prompt w =
          (w\<lparr>history := history w @ attempts_trace ?p prompt 0 ?m\<rparr>,
           Inl (AnswerGenerationError
                  (''Failed to generate answer after '' @ str_int (max_retries gen)
                   @ '' attempts. Last error: '' @ exc_str (projl (?r (?m - 1))))))"
    if pos: "0 < max_retries gen" and f: "\<forall>k < ?m. isl (?r k)"
  proof -
    have a: "0 < ?m" using pos by simp
    have f': "\<forall>k. 0 \<le> k \<and> k < ?m \<longrightarrow> isl (attempt_result env ?p prompt (provider_calls w + (k - 0)))"
      using f by simp
    show ?thesis
      unfolding retry_with_backoff_def py_range_def
        retry_loop_all_fail[OF refl a f', where last_error = None]
      by (simp add: str_opt_exc_def)
  qed
  have succ: "retry_with_backoff env gen prompt w =
          (w\<lparr>history := history w @ attempts_trace ?p prompt 0 (Suc j)\<rparr>, Inr response)"
    if j: "j < ?m" and f: "\<forall>k < j. isl (?r k)" and s: "?r j = Inr response" for j response
  proof -
    have f': "\<forall>k. 0 \<le> k \<and> k < j \<longrightarrow> isl (attempt_result env ?p prompt (provider_calls w + (k - 0)))"
      using f by simp
    have s': "attempt_result env ?p prompt (provider_calls w + (j - 0)) = Inr response"
      using s by simp
    from retry_loop_first_success[OF refl _ j f' s', where last_error = None]
    obtain last where "llm_retry_loop env gen prompt [0..<?m] None w =
          (w\<lparr>history := history w @ attempts_trace ?p prompt 0 (Suc j - 0)\<rparr>, last, Some response)"
      by blast
    then show ?thesis
      by (simp add: retry_with_backoff_def py_range_def)
  qed
  have bound: "provider_calls (fst (retry_with_backoff env gen prompt w)) \<le> provider_calls w + ?m"
  proof (cases "\<forall>k < ?m. isl (?r k)")
    case True
    show ?thesis
    proof (cases "0 < max_retries gen")
      case True
      with allfail \<open>\<forall>k < ?m. isl (?r k)\<close> show ?thesis
        by (simp add: provider_calls_extended)
    next
      case False
      then show ?thesis using zero by simp
    qed
  next
    case False
    then have "\<exists>j. j < ?m \<and> \<not> isl (?r j)" by blast
    then obtain j where j: "j < ?m \<and> \<not> isl (?r j)" and least: "\<forall>k<j. \<not> (k < ?m \<and> \<not> isl (?r k))"
      using exists_least_iff[of "\<lambda>j. j < ?m \<and> \<not> isl (?r j)"] by blast
    from j obtain response where resp: "?r j = Inr response"
      by (cases "?r j") auto
    have "\<forall>k<j. isl (?r k)" using least j by auto
    from succ[OF _ this resp] j show ?thesis
      by (simp add: provider_calls_extended)
  qed
  have tr3: "attempts_trace ?p prompt 0 3 =
        [ProviderCall ?p prompt, Sleep 1, ProviderCall ?p prompt, Sleep 2, ProviderCall ?p prompt]"
    by (simp add: numeral_3_eq_3)
  have d3: "default_max_retries = 3" by (simp add: default_max_retries_def)
  show ?thesis
  proof (intro conjI impI allI)
    show "provider_calls (fst (retry_with_backoff env gen prompt w)) \<le> provider_calls w + ?m"
      by (rule bound)
  qed (use zero allfail succ tr3 d3 in blast)+
qed


theorem retry_is_bounded_with_backoff_witness:
  "snd (retry_with_backoff failing_env example_generator ''What is a stack?'' example_world) =
     Inl (AnswerGenerationError
            ''Failed to generate answer after 3 attempts. Last error: timed out'')
   \<and> history (fst (retry_with_backoff failing_env example_generator ''What is a stack?''
                     example_world)) =
       [ProviderCall ''gemini'' ''What is a stack?'', Sleep 1,
        ProviderCall ''gemini'' ''What is a stack?'', Sleep 2,
        ProviderCall ''gemini'' ''What is a stack?'']
   \<and> snd (retry_with_backoff example_env example_generator ''What is a stack?'' example_world) =
       Inr ''A stack is a list.''
   \<and> history (fst (retry_with_backoff example_env example_generator ''What is a stack?''
                     example_world)) =
       [ProviderCall ''gemini'' ''What is a stack?'']"
proof -
  let ?q = "''What is a stack?''"
  note thm_fail = retry_is_bounded_with_backoff [of failing_env example_generator ?q example_world]
  note thm_ok = retry_is_bounded_with_backoff [of example_env example_generator ?q example_world]
  have m: "nat (max_retries example_generator) = 3" "max_retries example_generator = 3"
    "llm_provider example_generator = ''gemini''"
    by (simp_all add: example_generator_def)
  have s3: "str_int 3 = ''3''" by (simp add: str_int_def)
  have fails: "\<forall>k<3. isl (attempt_result failing_env ''gemini'' ?q (provider_calls example_world + k))"
    by (simp add: failing_env_def example_env_def attempt_result_def)
  have last: "exc_str (projl (attempt_result failing_env ''gemini'' ?q (provider_calls example_world + (3 - 1))))
                = ''timed out''"
    by (simp add: failing_env_def example_env_def attempt_result_def)
  have ok: "attempt_result example_env ''gemini'' ?q (provider_calls example_world + 0) = Inr ''A stack is a list.''"
    by (simp add: example_env_def attempt_result_def)
  have h0: "history example_world = []" by (simp add: example_world_def)
  from thm_fail have tr3: "attempts_trace ''gemini'' ?q 0 3 =
        [ProviderCall ''gemini'' ?q, Sleep 1, ProviderCall ''gemini'' ?q, Sleep 2,
         ProviderCall ''gemini'' ?q]"
    unfolding m by blast
  from thm_fail fails have "retry_with_backoff failing_env example_generator ?q example_world =
      (example_world\<lparr>history := history example_world @ attempts_trace ''gemini'' ?q 0 3\<rparr>,
       Inl (AnswerGenerationError
              (''Failed to generate answer after '' @ str_int 3 @ '' attempts. Last error: ''
               @ exc_str (projl (attempt_result failing_env ''gemini'' ?q
                    (provider_calls example_world + (3 - 1)))))))"
    unfolding m by simp
  then have A: "snd (retry_with_backoff failing_env example_generator ?q example_world) =
     Inl (AnswerGenerationError
            ''Failed to generate answer after 3 attempts. Last error: timed out'')"
    and B: "history (fst (retry_with_backoff failing_env example_generator ?q example_world)) =
       [ProviderCall ''gemini'' ?q, Sleep 1, ProviderCall ''gemini'' ?q, Sleep 2,
        ProviderCall ''gemini'' ?q]"
    unfolding last s3 tr3 h0 by simp_all
  from thm_ok have "\<forall>j response. j < 3
        \<and> (\<forall>k < j. isl (attempt_result example_env ''gemini'' ?q (provider_calls example_world + k)))
        \<and> attempt_result example_env ''gemini'' ?q (provider_calls example_world + j) = Inr response \<longrightarrow>
        retry_with_backoff example_env example_generator ?q example_world =
          (example_world\<lparr>history := history example_world @ attempts_trace ''gemini'' ?q 0 (Suc j)\<rparr>,
           Inr response)"
    unfolding m nat_numeral by blast
  from this[rule_format, of 0 "''A stack is a list.''"] ok
  have "retry_with_backoff example_env example_generator ?q example_world =
          (example_world\<lparr>history := history example_world @ attempts_trace ''gemini'' ?q 0 (Suc 0)\<rparr>,
           Inr ''A stack is a list.'')"
    by simp
  then have C: "snd (retry_with_backoff example_env example_generator ?q example_world) =
       Inr ''A stack is a list.''"
    and D: "history (fst (retry_with_backoff example_env example_generator ?q example_world)) =
       [ProviderCall ''gemini'' ?q]"
    unfolding h0 by simp_all
  from A B C D show ?thesis by blast
qed


section \<open>Steps of the pipeline\<close>

text \<open>
  Each part of the pipeline only appends: to the progress log and the answer previews of
  its session and to the history. The lemmas of this section say what each part appends.
\<close>

lemma stepped_refl: "stepped sid w [] [] [] w"
  unfolding stepped_def
  by (rule exI[of _ "hashes w"], rule exI[of _ "results w"], rule exI[of _ "pdfs w"]) simp

lemma stepped_trans:
  assumes "stepped sid w e1 a1 h1 w1" and "stepped sid w1 e2 a2 h2 w2"
  shows "stepped sid w (e1 @ e2) (a1 @ a2) (h1 @ h2) w2"
proof -
  from assms(1) obtain hs1 rs1 ps1 where w1: "w1 = w\<lparr>hashes := hs1,
                progress_lists := (progress_lists w)(get_progress_key sid :=
                   progress_lists w (get_progress_key sid) @ e1),
                answers_lists := (answers_lists w)(get_answers_key sid :=
                   answers_lists w (get_answers_key sid) @ a1),
                results := rs1, pdfs := ps1,
                history := history w @ h1\<rparr>" unfolding stepped_def by blast
  from assms(2) obtain hs2 rs2 ps2 where w2: "w2 = w1\<lparr>hashes := hs2,
                progress_lists := (progress_lists w1)(get_progress_key sid :=
                   progress_lists w1 (get_progress_key sid) @ e2),
                answers_lists := (answers_lists w1)(get_answers_key sid :=
                   answers_lists w1 (get_answers_key sid) @ a2),
                results := rs2, pdfs := ps2,
                history := history w1 @ h2\<rparr>" unfolding stepped_def by blast
  show ?thesis
    unfolding stepped_def
    by (rule exI[of _ hs2], rule exI[of _ rs2], rule exI[of _ ps2]) (simp add: w2 w1)
qed

lemma stepped_emit_progress:
  "stepped sid w
     [\<lparr>session_id = sid, stage = stg, progress = pct, message = msg, timestamp = clock w\<rparr>] [] []
     (emit_progress sid stg pct msg w)"
  unfolding stepped_def
  by (rule exI[of _ "hashes (emit_progress sid stg pct msg w)"], rule exI[of _ "results w"],
      rule exI[of _ "pdfs w"])
     (simp add: emit_progress_def add_progress_event_def hset_def Let_def)

lemma stepped_store_answer:
  "stepped sid w []
     [\<lparr>index = k, question = qt, answer = atxt, diagrams_count = dc, ap_timestamp = clock w\<rparr>] []
     (store_answer sid k qt atxt dc w)"
  unfolding stepped_def
  by (rule exI[of _ "hashes w"], rule exI[of _ "results w"], rule exI[of _ "pdfs w"])
     (simp add: store_answer_def Let_def)

lemma stepped_history: "stepped sid w [] [] h (w\<lparr>history := history w @ h\<rparr>)"
  unfolding stepped_def
  by (rule exI[of _ "hashes w"], rule exI[of _ "results w"], rule exI[of _ "pdfs w"]) simp

lemma stepped_update_session_status:
  "stepped sid w [] [] [StatusWrite sid st] (update_session_status sid st w)"
  unfolding stepped_def
  by (rule exI[of _ "hashes (update_session_status sid st w)"], rule exI[of _ "results w"],
      rule exI[of _ "pdfs w"])
     (simp add: update_session_status_def hset_def)

lemma stepped_store_result: "stepped sid w [] [] [] (store_result sid rd w)"
  unfolding stepped_def
  by (rule exI[of _ "hashes w"], rule exI[of _ "results (store_result sid rd w)"],
      rule exI[of _ "pdfs w"])
     (simp add: store_result_def)

lemma stepped_pdfs: "stepped sid w [] [] [] (w\<lparr>pdfs := ps\<rparr>)"
  unfolding stepped_def
  by (rule exI[of _ "hashes w"], rule exI[of _ "results w"], rule exI[of _ ps]) simp

lemma stepped_fields:
  assumes "stepped sid w evs as h w'"
  shows "files w' = files w" and "clock w' = clock w"
    and "history w' = history w @ h"
    and "progress_lists w' (get_progress_key sid) = progress_lists w (get_progress_key sid) @ evs"
    and "answers_lists w' (get_answers_key sid) = answers_lists w (get_answers_key sid) @ as"
    and "new_history w w' = h" and "new_events sid w w' = evs" and "new_answers sid w w' = as"
  using assms unfolding stepped_def new_history_def new_events_def new_answers_def by auto

lemma callback_percentage_bounds:
  assumes "10 \<le> pct" and "pct \<le> 100"
  shows "24 \<le> 20 + py_trunc ((of_int pct / 100) * 40)"
    and "20 + py_trunc ((of_int pct / 100) * 40) \<le> 60"
proof -
  have nn: "0 \<le> (of_int pct / 100 :: rat) * 40" using assms by simp
  have "(4::rat) \<le> (of_int pct / 100) * 40" using assms by simp
  then have "4 \<le> \<lfloor>(of_int pct / 100 :: rat) * 40\<rfloor>" by (simp add: le_floor_iff)
  then show "24 \<le> 20 + py_trunc ((of_int pct / 100) * 40)"
    using nn by (simp add: py_trunc_floor)
  have "(of_int pct / 100 :: rat) * 40 \<le> 40" using assms by simp
  then have "\<lfloor>(of_int pct / 100 :: rat) * 40\<rfloor> \<le> 40"
    by (metis floor_mono floor_numeral)
  then show "20 + py_trunc ((of_int pct / 100) * 40) \<le> 60"
    using nn by (simp add: py_trunc_floor)
qed

lemma question_progress_bounds:
  assumes "i \<le> n"
  shows "25 \<le> question_progress i n" and "question_progress i n \<le> 60"
proof -
  have nn: "0 \<le> (of_nat i / of_nat n :: rat) * 35" by simp
  have "(of_nat i / of_nat n :: rat) \<le> 1" using assms by (auto simp add: divide_le_eq_1)
  then have "(of_nat i / of_nat n :: rat) * 35 \<le> 1 * 35"
    by (rule mult_right_mono) simp
  then have "(of_nat i / of_nat n :: rat) * 35 \<le> 35" by (simp only: mult_1)
  then have "\<lfloor>(of_nat i / of_nat n :: rat) * 35\<rfloor> \<le> 35"
    by (metis floor_mono floor_numeral)
  then show "question_progress i n \<le> 60"
    using nn by (simp add: question_progress_def py_trunc_floor)
  have "0 \<le> \<lfloor>(of_nat i / of_nat n :: rat) * 35\<rfloor>" using nn by (simp add: zero_le_floor)
  then show "25 \<le> question_progress i n"
    using nn by (simp add: question_progress_def py_trunc_floor)
qed

lemma diagram_progress_mono:
  assumes "a \<le> b"
  shows "diagram_progress a t \<le> diagram_progress b t"
proof -
  have "(of_nat a / of_nat t :: rat) \<le> of_nat b / of_nat t"
    using assms by (simp add: divide_right_mono)
  then have "(of_nat a / of_nat t :: rat) * 10 \<le> (of_nat b / of_nat t) * 10"
    by (rule mult_right_mono) simp
  then have "\<lfloor>(of_nat a / of_nat t :: rat) * 10\<rfloor> \<le> \<lfloor>(of_nat b / of_nat t :: rat) * 10\<rfloor>"
    by (rule floor_mono)
  then show ?thesis by (simp add: diagram_progress_def py_trunc_floor)
qed

lemma diagram_progress_bounds:
  assumes "a \<le> t"
  shows "65 \<le> diagram_progress a t" and "diagram_progress a t \<le> 75"
proof -
  have nn: "0 \<le> (of_nat a / of_nat t :: rat) * 10" by simp
  have "(of_nat a / of_nat t :: rat) \<le> 1" using assms by (auto simp add: divide_le_eq_1)
  then have "(of_nat a / of_nat t :: rat) * 10 \<le> 1 * 10"
    by (rule mult_right_mono) simp
  then have "(of_nat a / of_nat t :: rat) * 10 \<le> 10" by (simp only: mult_1)
  then have "\<lfloor>(of_nat a / of_nat t :: rat) * 10\<rfloor> \<le> 10"
    by (metis floor_mono floor_numeral)
  then show "diagram_progress a t \<le> 75"
    using nn by (simp add: diagram_progress_def py_trunc_floor)
  have "0 \<le> \<lfloor>(of_nat a / of_nat t :: rat) * 10\<rfloor>" using nn by (simp add: zero_le_floor)
  then show "65 \<le> diagram_progress a t"
    using nn by (simp add: diagram_progress_def py_trunc_floor)
qed

lemma generator_steps_refl: "generator_steps sid w w"
  unfolding generator_steps_def using stepped_refl[of sid w] by force

lemma generator_steps_trans:
  assumes "generator_steps sid w w1" and "generator_steps sid w1 w2"
  shows "generator_steps sid w w2"
proof -
  from assms(1) obtain e1 h1 where 1: "stepped sid w e1 [] h1 w1" "list_all llm_effect h1"
    "list_all (\<lambda>e. 24 \<le> progress e \<and> progress e \<le> 60) e1"
    unfolding generator_steps_def by blast
  from assms(2) obtain e2 h2 where 2: "stepped sid w1 e2 [] h2 w2" "list_all llm_effect h2"
    "list_all (\<lambda>e. 24 \<le> progress e \<and> progress e \<le> 60) e2"
    unfolding generator_steps_def by blast
  from stepped_trans[OF 1(1) 2(1)] have "stepped sid w (e1 @ e2) [] (h1 @ h2) w2" by simp
  moreover have "list_all llm_effect (h1 @ h2)" using 1(2) 2(2) by simp
  moreover have "list_all (\<lambda>e. 24 \<le> progress e \<and> progress e \<le> 60) (e1 @ e2)"
    using 1(3) 2(3) by simp
  ultimately show ?thesis unfolding generator_steps_def by blast
qed

lemma generator_steps_history:
  assumes "list_all llm_effect h"
  shows "generator_steps sid w (w\<lparr>history := history w @ h\<rparr>)"
  unfolding generator_steps_def using stepped_history[of sid w h] assms by force

lemma generator_steps_emit:
  assumes "progress_callback gen = None \<or> progress_callback gen = Some (answer_progress_callback sid)"
    and "10 \<le> pct" and "pct \<le> 100"
  shows "generator_steps sid w (gen_emit_progress gen stg pct msg w)"
proof (cases "progress_callback gen")
  case None
  then show ?thesis by (simp add: gen_emit_progress_def generator_steps_refl)
next
  case (Some cb)
  with assms(1) have cb: "cb = answer_progress_callback sid" by simp
  let ?p = "20 + py_trunc ((of_int pct / 100) * 40)"
  have "stepped sid w
     [\<lparr>session_id = sid, stage = stg, progress = ?p, message = msg, timestamp = clock w\<rparr>] [] []
     (emit_progress sid stg ?p msg w)" by (rule stepped_emit_progress)
  moreover have "24 \<le> ?p \<and> ?p \<le> 60" using callback_percentage_bounds[OF assms(2,3)] by simp
  ultimately show ?thesis
    unfolding generator_steps_def gen_emit_progress_def Some cb answer_progress_callback_def Let_def
    by force
qed

lemma generator_steps_call_provider:
  "generator_steps sid w (fst (call_provider env prov prompt w))"
  using generator_steps_history[of "[ProviderCall prov prompt]" sid w]
  by (simp add: call_provider_def)

lemma generator_steps_sleep: "generator_steps sid w (sleep n w)"
  using generator_steps_history[of "[Sleep n]" sid w] by (simp add: sleep_def)

lemma generator_steps_retry_loop:
  "generator_steps sid w (fst (llm_retry_loop env gen prompt xs last_error w))"
proof (induction xs arbitrary: last_error w)
  case Nil
  then show ?case by (simp add: generator_steps_refl)
next
  case (Cons a xs)
  obtain w1 r where c: "call_provider env (llm_provider gen) prompt w = (w1, r)"
    by (cases "call_provider env (llm_provider gen) prompt w")
  have s1: "generator_steps sid w w1"
    using generator_steps_call_provider[of sid w env "llm_provider gen" prompt] c by simp
  show ?case
  proof (cases r)
    case (Inr response)
    then show ?thesis using c s1 by simp
  next
    case (Inl e)
    show ?thesis
    proof (cases "int a < max_retries gen - 1")
      case True
      have "generator_steps sid w1 (sleep (2 ^ a) w1)" by (rule generator_steps_sleep)
      from generator_steps_trans[OF s1 this]
      have "generator_steps sid w (sleep (2 ^ a) w1)" .
      from generator_steps_trans[OF this Cons.IH]
      show ?thesis using c Inl True by simp
    next
      case False
      then show ?thesis using c Inl s1 by simp
    qed
  qed
qed

lemma generator_steps_retry:
  "generator_steps sid w (fst (retry_with_backoff env gen prompt w))"
proof -
  obtain w1 l r where c: "llm_retry_loop env gen prompt (py_range (max_retries gen)) None w = (w1, l, r)"
    by (cases "llm_retry_loop env gen prompt (py_range (max_retries gen)) None w")
  then have "generator_steps sid w w1"
    using generator_steps_retry_loop[of sid w env gen prompt "py_range (max_retries gen)" None]
    by simp
  then show ?thesis using c by (cases r) (simp_all add: retry_with_backoff_def)
qed

lemma generator_steps_with_llm:
  "generator_steps sid w (fst (generate_answer_with_llm env gen q context lang entries w))"
  by (cases "build_prompt env q context lang entries")
     (simp_all add: generate_answer_with_llm_def generator_steps_refl generator_steps_retry)

lemma generator_steps_generate_answer:
  assumes cb: "progress_callback gen = None \<or> progress_callback gen = Some (answer_progress_callback sid)"
  shows "generator_steps sid w (fst (generate_answer env gen q lang w))"
proof (cases "is_supported lang")
  case False
  then show ?thesis by (simp add: generate_answer_def generator_steps_refl)
next
  case True
  let ?entries = "search_knowledge_base env q"
  let ?w1 = "gen_emit_progress gen ''knowledge_search'' 10
                   (''Searching knowledge base for question '' @ q_id q) w"
  let ?w2 = "gen_emit_progress gen ''context_building'' 20
                   (''Building context for question '' @ q_id q) ?w1"
  have s2: "generator_steps sid w ?w2"
    by (rule generator_steps_trans[OF generator_steps_emit[OF cb] generator_steps_emit[OF cb]]) simp_all
  show ?thesis
  proof (cases "build_context env ?entries")
    case (Inl e)
    then show ?thesis using True s2 by (simp add: generate_answer_def Let_def)
  next
    case (Inr ctx)
    let ?w3 = "gen_emit_progress gen ''answer_generation'' 40
                           (''Generating answer for question '' @ q_id q) ?w2"
    have s3: "generator_steps sid w ?w3"
      by (rule generator_steps_trans[OF s2 generator_steps_emit[OF cb]]) simp_all
    obtain w4 r where g: "generate_answer_with_llm env gen q ctx lang ?entries ?w3 = (w4, r)"
      by (cases "generate_answer_with_llm env gen q ctx lang ?entries ?w3")
    have "generator_steps sid ?w3 w4"
      using generator_steps_with_llm[of sid ?w3 env gen q ctx lang ?entries] g by simp
    from generator_steps_trans[OF s3 this] have s4: "generator_steps sid w w4" .
    show ?thesis
    proof (cases r)
      case (Inl e)
      then show ?thesis using True Inr g s4 by (simp add: generate_answer_def Let_def)
    next
      case r: (Inr answer_content)
      let ?w5 = "gen_emit_progress gen ''visual_detection'' 70
                                   (''Detecting visual elements for question '' @ q_id q) w4"
      have s5: "generator_steps sid w ?w5"
        by (rule generator_steps_trans[OF s4 generator_steps_emit[OF cb]]) simp_all
      show ?thesis
      proof (cases "detect_visual_elements env q answer_content lang")
        case (Inl e)
        then show ?thesis using True Inr g r s5 by (simp add: generate_answer_def Let_def)
      next
        case d: (Inr ves)
        let ?w6 = "gen_emit_progress gen ''citation_generation'' 90
                                           (''Generating citations for question '' @ q_id q) ?w5"
        let ?w7 = "gen_emit_progress gen ''complete'' 100
                                           (''Completed answer generation for question '' @ q_id q)
                                           ?w6"
        have s6: "generator_steps sid w ?w6"
          by (rule generator_steps_trans[OF s5 generator_steps_emit[OF cb]]) simp_all
        have s7: "generator_steps sid w ?w7"
          by (rule generator_steps_trans[OF s6 generator_steps_emit[OF cb]]) simp_all
        show ?thesis
          using True Inr g r d s7
          by (cases "new_Answer (q_id q) answer_content lang ves
                       (generate_references ?entries) (map ke_id ?entries)")
             (simp_all add: generate_answer_def Let_def)
      qed
    qed
  qed
qed



lemma new_Answer_fields:
  assumes "new_Answer qid c lang ves refs srcs = Inr a"
  shows "question_id a = qid" and "content a = c" and "visual_elements a = ves"
  using assms by (auto simp: new_Answer_def split: if_splits)

lemma generate_answer_question_id:
  assumes "snd (generate_answer env gen q lang w) = Inr a"
  shows "question_id a = q_id q"
  using assms
  by (auto simp: generate_answer_def Let_def new_Answer_def split: if_splits sum.splits prod.splits)


lemma answer_step_stepped:
  assumes cb: "progress_callback gen = None \<or> progress_callback gen = Some (answer_progress_callback sid)"
    and "Suc i0 \<le> n"
  shows "\<exists>evs a h. stepped sid w evs a h (fst (answer_step env sid gen lang n (Suc i0) q answers w))
          \<and> list_all llm_effect h
          \<and> list_all (\<lambda>e. 24 \<le> progress e \<and> progress e \<le> 60) evs
          \<and> (case snd (answer_step env sid gen lang n (Suc i0) q answers w) of
                Inl e \<Rightarrow> a = []
              | Inr answers' \<Rightarrow>
                  (\<exists>x. answers' = answers @ [x] \<and> question_id x = q_id q
                       \<and> a = [preview_of w i0 q x]))"
proof -
  let ?msg = "''Generating answer '' @ str_int (int (Suc i0)) @ ''/'' @ str_int (int n)"
  let ?w1 = "emit_progress sid ''generating_answer'' (question_progress (Suc i0) n) ?msg w"
  let ?ev = "\<lparr>session_id = sid, stage = ''generating_answer'',
              progress = question_progress (Suc i0) n, message = ?msg, timestamp = clock w\<rparr>"
  have s1: "stepped sid w [?ev] [] [] ?w1" by (rule stepped_emit_progress)
  have b1: "24 \<le> progress ?ev \<and> progress ?ev \<le> 60"
    using question_progress_bounds[OF assms(2)] by simp
  obtain w2 r where g: "generate_answer env gen q lang ?w1 = (w2, r)"
    by (cases "generate_answer env gen q lang ?w1")
  have "generator_steps sid ?w1 w2"
    using generator_steps_generate_answer[OF cb, of ?w1 env q lang] g by simp
  then obtain e2 h2 where s2: "stepped sid ?w1 e2 [] h2 w2" and l2: "list_all llm_effect h2"
    and b2: "list_all (\<lambda>e. 24 \<le> progress e \<and> progress e \<le> 60) e2"
    unfolding generator_steps_def by blast
  from stepped_trans[OF s1 s2] have s12: "stepped sid w ([?ev] @ e2) [] h2 w2" by simp
  have b12: "list_all (\<lambda>e. 24 \<le> progress e \<and> progress e \<le> 60) ([?ev] @ e2)"
    using b1 b2 by simp
  have ck: "clock w2 = clock w" using stepped_fields(2)[OF s12] .
  have store: "\<And>k qt atxt dc. stepped sid w ([?ev] @ e2)
      [\<lparr>index = k, question = qt, answer = atxt, diagrams_count = dc, ap_timestamp = clock w\<rparr>] h2
      (store_answer sid k qt atxt dc w2)"
  proof -
    fix k qt atxt dc
    from stepped_trans[OF s12 stepped_store_answer[of sid w2 k qt atxt dc]]
    show "stepped sid w ([?ev] @ e2)
      [\<lparr>index = k, question = qt, answer = atxt, diagrams_count = dc, ap_timestamp = clock w\<rparr>] h2
      (store_answer sid k qt atxt dc w2)" by (simp add: ck)
  qed
  show ?thesis
  proof (cases r)
    case (Inr x)
    have qid: "question_id x = q_id q"
      using generate_answer_question_id[of env gen q lang ?w1 x] g Inr by simp
    have res: "answer_step env sid gen lang n (Suc i0) q answers w =
      (store_answer sid (int i0) (q_text q) (content x) (int (length (visual_elements x))) w2,
       Inr (answers @ [x]))"
      unfolding answer_step_def Let_def g Inr by simp
    show ?thesis
      unfolding res
      apply (rule exI[of _ "[?ev] @ e2"], rule exI[of _ "[preview_of w i0 q x]"], rule exI[of _ h2])
      using store[of "int i0" "q_text q" "content x" "int (length (visual_elements x))"]
        l2 b12 qid
      by (simp add: preview_of_def)
  next
    case (Inl e)
    show ?thesis
    proof (cases "new_Answer (q_id q) (''Error generating answer: '' @ exc_str e) lang [] [] []")
      case na: (Inl e')
      have res: "answer_step env sid gen lang n (Suc i0) q answers w = (w2, Inl e')"
        unfolding answer_step_def Let_def g Inl using na by simp
      show ?thesis
        unfolding res
        apply (rule exI[of _ "[?ev] @ e2"], rule exI[of _ "[]"], rule exI[of _ h2])
        using s12 l2 b12 by simp
    next
      case na: (Inr x)
      have res: "answer_step env sid gen lang n (Suc i0) q answers w =
        (store_answer sid (int i0) (q_text q) (content x) 0 w2, Inr (answers @ [x]))"
        unfolding answer_step_def Let_def g Inl using na by simp
      have f: "question_id x = q_id q" "visual_elements x = []"
        using new_Answer_fields[OF na] by simp_all
      show ?thesis
        unfolding res
        apply (rule exI[of _ "[?ev] @ e2"], rule exI[of _ "[preview_of w i0 q x]"], rule exI[of _ h2])
        using store[of "int i0" "q_text q" "content x" 0] l2 b12 f
        by (simp add: preview_of_def)
    qed
  qed
qed

lemma preview_of_clock: "clock w1 = clock w \<Longrightarrow> preview_of w1 = preview_of w"
  by (intro ext) (simp add: preview_of_def)

lemma previews_index:
  assumes "length new = length qs"
  shows "map index (map (\<lambda>(j, q, x). preview_of w j q x) (zip [i0..<i0 + length qs] (zip qs new)))
           = map int [i0..<i0 + length qs]"
    and "map question (map (\<lambda>(j, q, x). preview_of w j q x) (zip [i0..<i0 + length qs] (zip qs new)))
           = map q_text qs"
    and "map answer (map (\<lambda>(j, q, x). preview_of w j q x) (zip [i0..<i0 + length qs] (zip qs new)))
           = map content new"
  using assms
  by (auto simp: preview_of_def intro!: nth_equalityI)

lemma answer_loop_stepped:
  assumes cb: "progress_callback gen = None \<or> progress_callback gen = Some (answer_progress_callback sid)"
    and "i0 + length qs \<le> n"
  shows "\<exists>evs a h. stepped sid w evs a h (fst (answer_loop env sid gen lang n (Suc i0) qs answers w))
          \<and> list_all llm_effect h
          \<and> list_all (\<lambda>e. 24 \<le> progress e \<and> progress e \<le> 60) evs
          \<and> (\<forall>answers'. snd (answer_loop env sid gen lang n (Suc i0) qs answers w) = Inr answers' \<longrightarrow>
                (\<exists>new. answers' = answers @ new \<and> length new = length qs
                   \<and> map question_id new = map q_id qs
                   \<and> a = map (\<lambda>(j, q, x). preview_of w j q x)
                             (zip [i0..<i0 + length qs] (zip qs new))))"
  using assms(2)
proof (induction qs arbitrary: i0 answers w)
  case Nil
  show ?case
    apply (rule exI[of _ "[]"], rule exI[of _ "[]"], rule exI[of _ "[]"])
    by (simp add: stepped_refl)
next
  case (Cons q qs)
  have le: "Suc i0 \<le> n" using Cons.prems by simp
  from answer_step_stepped[OF cb le, of w env lang q answers]
  obtain e1 a1 h1 where s1: "stepped sid w e1 a1 h1 (fst (answer_step env sid gen lang n (Suc i0) q answers w))"
    and l1: "list_all llm_effect h1"
    and b1: "list_all (\<lambda>e. 24 \<le> progress e \<and> progress e \<le> 60) e1"
    and c1: "(case snd (answer_step env sid gen lang n (Suc i0) q answers w) of
                Inl e \<Rightarrow> a1 = []
              | Inr answers' \<Rightarrow>
                  (\<exists>x. answers' = answers @ [x] \<and> question_id x = q_id q
                       \<and> a1 = [preview_of w i0 q x]))"
    by blast
  obtain w1 r where st: "answer_step env sid gen lang n (Suc i0) q answers w = (w1, r)"
    by (cases "answer_step env sid gen lang n (Suc i0) q answers w")
  show ?case
  proof (cases r)
    case (Inl e)
    have res: "answer_loop env sid gen lang n (Suc i0) (q # qs) answers w = (w1, Inl e)"
      using st Inl by simp
    show ?thesis
      unfolding res
      apply (rule exI[of _ e1], rule exI[of _ a1], rule exI[of _ h1])
      using s1 l1 b1 st by simp
  next
    case (Inr answers1)
    from c1 st Inr obtain x where x: "answers1 = answers @ [x]" "question_id x = q_id q"
      "a1 = [preview_of w i0 q x]" by auto
    have res: "answer_loop env sid gen lang n (Suc i0) (q # qs) answers w =
                 answer_loop env sid gen lang n (Suc (Suc i0)) qs answers1 w1"
      using st Inr by simp
    have le2: "Suc i0 + length qs \<le> n" using Cons.prems by simp
    from Cons.IH[OF le2, where answers = answers1 and w = w1]
    obtain e2 a2 h2 where s2: "stepped sid w1 e2 a2 h2 (fst (answer_loop env sid gen lang n (Suc (Suc i0)) qs answers1 w1))"
      and l2: "list_all llm_effect h2"
      and b2: "list_all (\<lambda>e. 24 \<le> progress e \<and> progress e \<le> 60) e2"
      and c2: "\<forall>answers'. snd (answer_loop env sid gen lang n (Suc (Suc i0)) qs answers1 w1) = Inr answers' \<longrightarrow>
                (\<exists>new. answers' = answers1 @ new \<and> length new = length qs
                   \<and> map question_id new = map q_id qs
                   \<and> a2 = map (\<lambda>(j, q, x). preview_of w1 j q x)
                             (zip [Suc i0..<Suc i0 + length qs] (zip qs new)))"
      by blast
    have s1': "stepped sid w e1 a1 h1 w1" using s1 st by simp
    have ck: "clock w1 = clock w" using stepped_fields(2)[OF s1'] .
    from stepped_trans[OF s1' s2]
    have s12: "stepped sid w (e1 @ e2) (a1 @ a2) (h1 @ h2)
                 (fst (answer_loop env sid gen lang n (Suc (Suc i0)) qs answers1 w1))" .
    have fin: "\<exists>new. answers' = answers @ new \<and> length new = length (q # qs)
                   \<and> map question_id new = map q_id (q # qs)
                   \<and> a1 @ a2 = map (\<lambda>(j, q, x). preview_of w j q x)
                             (zip [i0..<i0 + length (q # qs)] (zip (q # qs) new))"
      if "snd (answer_loop env sid gen lang n (Suc (Suc i0)) qs answers1 w1) = Inr answers'"
      for answers'
    proof -
      from c2 that obtain new where new: "answers' = answers1 @ new" "length new = length qs"
          "map question_id new = map q_id qs"
          "a2 = map (\<lambda>(j, q, x). preview_of w1 j q x)
                             (zip [Suc i0..<Suc i0 + length qs] (zip qs new))"
        by blast
      have "i0 < i0 + length (q # qs)" by simp
      from upt_conv_Cons[OF this]
      have "[i0..<i0 + length (q # qs)] = i0 # [Suc i0..<i0 + length (q # qs)]" .
      moreover have "i0 + length (q # qs) = Suc i0 + length qs" by simp
      ultimately have upt: "[i0..<i0 + length (q # qs)] = i0 # [Suc i0..<Suc i0 + length qs]"
        by (simp only:)
      show ?thesis
        apply (rule exI[of _ "x # new"])
        unfolding upt using new x by (simp add: preview_of_clock[OF ck])
    qed
    show ?thesis
      unfolding res
      apply (rule exI[of _ "e1 @ e2"], rule exI[of _ "a1 @ a2"], rule exI[of _ "h1 @ h2"])
      using s12 l1 l2 b1 b2 fin by simp
  qed
qed



lemma diagram_progress_lower: "65 \<le> diagram_progress a t"
proof -
  have nn: "0 \<le> (of_nat a / of_nat t :: rat) * 10" by simp
  then have "0 \<le> \<lfloor>(of_nat a / of_nat t :: rat) * 10\<rfloor>" by (simp add: zero_le_floor)
  then show ?thesis using nn by (simp add: diagram_progress_def py_trunc_floor)
qed

lemma diagrams_for_specs_stepped:
  "\<exists>evs. stepped sid w evs [] [] (fst (diagrams_for_specs env sid t specs ds p w))
     \<and> (\<forall>ds' p'. snd (diagrams_for_specs env sid t specs ds p w) = Inr (ds', p') \<longrightarrow>
           p \<le> p' \<and> p' \<le> p + length specs \<and> sorted (map progress evs)
           \<and> (\<forall>e \<in> set evs. diagram_progress (Suc p) t \<le> progress e
                  \<and> progress e \<le> diagram_progress p' t))"
proof (induction specs arbitrary: ds p w)
  case Nil
  show ?case
    apply (rule exI[of _ "[]"])
    by (simp add: stepped_refl)
next
  case (Cons spec specs)
  show ?case
  proof (cases "generate_diagram env spec")
    case (Inr d)
    let ?msg = "''Generated diagram '' @ str_int (int (p + 1)) @ ''/'' @ str_int (int t)"
    let ?w1 = "emit_progress sid ''generating_diagram'' (diagram_progress (p + 1) t) ?msg w"
    let ?ev = "\<lparr>session_id = sid, stage = ''generating_diagram'',
              progress = diagram_progress (p + 1) t, message = ?msg, timestamp = clock w\<rparr>"
    have s1: "stepped sid w [?ev] [] [] ?w1" by (rule stepped_emit_progress)
    have res: "diagrams_for_specs env sid t (spec # specs) ds p w =
                 diagrams_for_specs env sid t specs (ds @ [d]) (p + 1) ?w1"
      using Inr by (simp add: Let_def)
    from Cons.IH[where ds = "ds @ [d]" and p = "p + 1" and w = ?w1]
    obtain e2 where s2: "stepped sid ?w1 e2 [] [] (fst (diagrams_for_specs env sid t specs (ds @ [d]) (p + 1) ?w1))"
      and c2: "\<forall>ds' p'. snd (diagrams_for_specs env sid t specs (ds @ [d]) (p + 1) ?w1) = Inr (ds', p') \<longrightarrow>
           p + 1 \<le> p' \<and> p' \<le> p + 1 + length specs \<and> sorted (map progress e2)
           \<and> (\<forall>e \<in> set e2. diagram_progress (Suc (p + 1)) t \<le> progress e
                  \<and> progress e \<le> diagram_progress p' t)"
      by blast
    from stepped_trans[OF s1 s2]
    have s12: "stepped sid w ([?ev] @ e2) [] []
                 (fst (diagrams_for_specs env sid t specs (ds @ [d]) (p + 1) ?w1))" by simp
    have fin: "p \<le> p' \<and> p' \<le> p + length (spec # specs) \<and> sorted (map progress ([?ev] @ e2))
           \<and> (\<forall>e \<in> set ([?ev] @ e2). diagram_progress (Suc p) t \<le> progress e
                  \<and> progress e \<le> diagram_progress p' t)"
      if "snd (diagrams_for_specs env sid t specs (ds @ [d]) (p + 1) ?w1) = Inr (ds', p')"
      for ds' p'
    proof -
      from c2 that have a: "p + 1 \<le> p'" "p' \<le> p + 1 + length specs" "sorted (map progress e2)"
        and b: "\<forall>e \<in> set e2. diagram_progress (Suc (p + 1)) t \<le> progress e
                  \<and> progress e \<le> diagram_progress p' t"
        by blast+
      have m1: "diagram_progress (p + 1) t \<le> diagram_progress (Suc (p + 1)) t"
        by (rule diagram_progress_mono) simp
      have m2: "diagram_progress (p + 1) t \<le> diagram_progress p' t"
        by (rule diagram_progress_mono) (rule a(1))
      have "\<forall>e \<in> set e2. diagram_progress (p + 1) t \<le> progress e"
        using b m1 by force
      then have "sorted (map progress ([?ev] @ e2))" using a(3) by simp
      moreover have "\<forall>e \<in> set ([?ev] @ e2). diagram_progress (Suc p) t \<le> progress e
                  \<and> progress e \<le> diagram_progress p' t"
        using b m1 m2 by force
      ultimately show ?thesis using a by simp
    qed
    show ?thesis
      unfolding res
      apply (rule exI[of _ "[?ev] @ e2"])
      using s12 fin by blast
  next
    case (Inl e)
    show ?thesis
    proof (cases "isinstance e ''DiagramGenerationError''")
      case True
      have res: "diagrams_for_specs env sid t (spec # specs) ds p w =
                 diagrams_for_specs env sid t specs ds p w"
        using Inl True by simp
      from Cons.IH[where ds = ds and p = p and w = w]
      obtain e2 where s2: "stepped sid w e2 [] [] (fst (diagrams_for_specs env sid t specs ds p w))"
        and c2: "\<forall>ds' p'. snd (diagrams_for_specs env sid t specs ds p w) = Inr (ds', p') \<longrightarrow>
           p \<le> p' \<and> p' \<le> p + length specs \<and> sorted (map progress e2)
           \<and> (\<forall>e \<in> set e2. diagram_progress (Suc p) t \<le> progress e
                  \<and> progress e \<le> diagram_progress p' t)"
        by blast
      show ?thesis
        unfolding res
        apply (rule exI[of _ e2])
        using s2 c2 by force
    next
      case False
      have res: "diagrams_for_specs env sid t (spec # specs) ds p w = (w, Inl e)"
        using Inl False by simp
      show ?thesis
        unfolding res
        apply (rule exI[of _ "[]"])
        by (simp add: stepped_refl)
    qed
  qed
qed

lemma diagrams_for_answers_stepped:
  "\<exists>evs. stepped sid w evs [] [] (fst (diagrams_for_answers env sid t as dba p w))
     \<and> (\<forall>dba' p'. snd (diagrams_for_answers env sid t as dba p w) = Inr (dba', p') \<longrightarrow>
           p \<le> p' \<and> p' \<le> p + sum_list (map (\<lambda>a. length (visual_elements a)) as)
           \<and> sorted (map progress evs)
           \<and> (\<forall>e \<in> set evs. diagram_progress (Suc p) t \<le> progress e
                  \<and> progress e \<le> diagram_progress p' t))"
proof (induction as arbitrary: dba p w)
  case Nil
  show ?case
    apply (rule exI[of _ "[]"])
    by (simp add: stepped_refl)
next
  case (Cons a as)
  from diagrams_for_specs_stepped[of sid w env t "visual_elements a" "[]" p]
  obtain e1 where s1: "stepped sid w e1 [] [] (fst (diagrams_for_specs env sid t (visual_elements a) [] p w))"
    and c1: "\<forall>ds' p'. snd (diagrams_for_specs env sid t (visual_elements a) [] p w) = Inr (ds', p') \<longrightarrow>
           p \<le> p' \<and> p' \<le> p + length (visual_elements a) \<and> sorted (map progress e1)
           \<and> (\<forall>e \<in> set e1. diagram_progress (Suc p) t \<le> progress e
                  \<and> progress e \<le> diagram_progress p' t)"
    by blast
  obtain w1 r where st: "diagrams_for_specs env sid t (visual_elements a) [] p w = (w1, r)"
    by (cases "diagrams_for_specs env sid t (visual_elements a) [] p w")
  show ?case
  proof (cases r)
    case (Inl e)
    have res: "diagrams_for_answers env sid t (a # as) dba p w = (w1, Inl e)"
      using st Inl by simp
    show ?thesis
      unfolding res
      apply (rule exI[of _ e1])
      using s1 st by simp
  next
    case (Inr pr)
    obtain ds1 p1 where pr: "pr = (ds1, p1)" by (cases pr)
    let ?dba1 = "if ds1 \<noteq> [] then AList.update (question_id a) ds1 dba else dba"
    have res: "diagrams_for_answers env sid t (a # as) dba p w =
                 diagrams_for_answers env sid t as ?dba1 p1 w1"
      using st Inr pr by simp
    from c1 st Inr pr have a1: "p \<le> p1" "p1 \<le> p + length (visual_elements a)"
      "sorted (map progress e1)"
      and b1: "\<forall>e \<in> set e1. diagram_progress (Suc p) t \<le> progress e
                  \<and> progress e \<le> diagram_progress p1 t"
      by auto
    from Cons.IH[where dba = ?dba1 and p = p1 and w = w1]
    obtain e2 where s2: "stepped sid w1 e2 [] [] (fst (diagrams_for_answers env sid t as ?dba1 p1 w1))"
      and c2: "\<forall>dba' p'. snd (diagrams_for_answers env sid t as ?dba1 p1 w1) = Inr (dba', p') \<longrightarrow>
           p1 \<le> p' \<and> p' \<le> p1 + sum_list (map (\<lambda>a. length (visual_elements a)) as)
           \<and> sorted (map progress e2)
           \<and> (\<forall>e \<in> set e2. diagram_progress (Suc p1) t \<le> progress e
                  \<and> progress e \<le> diagram_progress p' t)"
      by blast
    have s1': "stepped sid w e1 [] [] w1" using s1 st by simp
    from stepped_trans[OF s1' s2]
    have s12: "stepped sid w (e1 @ e2) [] []
                 (fst (diagrams_for_answers env sid t as ?dba1 p1 w1))" by simp
    have fin: "p \<le> p' \<and> p' \<le> p + sum_list (map (\<lambda>a. length (visual_elements a)) (a # as))
           \<and> sorted (map progress (e1 @ e2))
           \<and> (\<forall>e \<in> set (e1 @ e2). diagram_progress (Suc p) t \<le> progress e
                  \<and> progress e \<le> diagram_progress p' t)"
      if "snd (diagrams_for_answers env sid t as ?dba1 p1 w1) = Inr (dba', p')" for dba' p'
    proof -
      from c2 that have a2: "p1 \<le> p'"
          "p' \<le> p1 + sum_list (map (\<lambda>a. length (visual_elements a)) as)"
          "sorted (map progress e2)"
        and b2: "\<forall>e \<in> set e2. diagram_progress (Suc p1) t \<le> progress e
                  \<and> progress e \<le> diagram_progress p' t"
        by blast+
      have m1: "diagram_progress p1 t \<le> diagram_progress (Suc p1) t"
        by (rule diagram_progress_mono) simp
      have m2: "diagram_progress p1 t \<le> diagram_progress p' t"
        by (rule diagram_progress_mono) (rule a2(1))
      have m3: "diagram_progress (Suc p) t \<le> diagram_progress (Suc p1) t"
        by (rule diagram_progress_mono) (use a1(1) in simp)
      have cross: "\<forall>x \<in> set e1. \<forall>y \<in> set e2. progress x \<le> progress y"
        using b1 b2 m1 by force
      have "sorted (map progress (e1 @ e2))"
        using a1(3) a2(3) cross by (simp add: sorted_append)
      moreover have "\<forall>e \<in> set (e1 @ e2). diagram_progress (Suc p) t \<le> progress e
                  \<and> progress e \<le> diagram_progress p' t"
        using b1 b2 m2 m3 by force
      ultimately show ?thesis using a1 a2 by simp
    qed
    show ?thesis
      unfolding res
      apply (rule exI[of _ "e1 @ e2"])
      using s12 fin by blast
  qed
qed

lemma generate_diagrams_stepped:
  "\<exists>evs. stepped sid w evs [] [] (fst (generate_diagrams env sid answers w))
     \<and> (\<forall>dba. snd (generate_diagrams env sid answers w) = Inr dba \<longrightarrow>
           sorted (map progress evs)
           \<and> (\<forall>e \<in> set evs. 65 \<le> progress e \<and> progress e \<le> 75))"
proof -
  let ?t = "sum_list (map (\<lambda>a. length (visual_elements a)) answers)"
  show ?thesis
  proof (cases "?t > 0")
    case False
    have res: "generate_diagrams env sid answers w = (w, Inr [])"
      by (simp only: generate_diagrams_def Let_def False if_False)
    show ?thesis
      unfolding res
      apply (rule exI[of _ "[]"])
      by (simp add: stepped_refl)
  next
    case True
    from diagrams_for_answers_stepped[of sid w env ?t answers "[]" 0]
    obtain evs where s: "stepped sid w evs [] [] (fst (diagrams_for_answers env sid ?t answers [] 0 w))"
      and c: "\<forall>dba' p'. snd (diagrams_for_answers env sid ?t answers [] 0 w) = Inr (dba', p') \<longrightarrow>
           0 \<le> p' \<and> p' \<le> 0 + ?t \<and> sorted (map progress evs)
           \<and> (\<forall>e \<in> set evs. diagram_progress (Suc 0) ?t \<le> progress e
                  \<and> progress e \<le> diagram_progress p' ?t)"
      by blast
    obtain w1 r where st: "diagrams_for_answers env sid ?t answers [] 0 w = (w1, r)"
      by (cases "diagrams_for_answers env sid ?t answers [] 0 w")
    show ?thesis
    proof (cases r)
      case (Inl e)
      have res: "generate_diagrams env sid answers w = (w1, Inl e)"
        using True st Inl by (simp add: generate_diagrams_def)
      show ?thesis
        unfolding res
        apply (rule exI[of _ evs])
        using s st by simp
    next
      case (Inr pr)
      obtain dba1 p1 where pr: "pr = (dba1, p1)" by (cases pr)
      have res: "generate_diagrams env sid answers w = (w1, Inr dba1)"
        using True st Inr pr by (simp add: generate_diagrams_def)
      from c st Inr pr have a: "p1 \<le> ?t" "sorted (map progress evs)"
        and b: "\<forall>e \<in> set evs. diagram_progress (Suc 0) ?t \<le> progress e
                  \<and> progress e \<le> diagram_progress p1 ?t"
        by auto
      have "\<forall>e \<in> set evs. 65 \<le> progress e \<and> progress e \<le> 75"
        using b diagram_progress_lower[of "Suc 0" ?t] diagram_progress_bounds(2)[OF a(1)]
        by force
      then show ?thesis
        unfolding res
        apply -
        apply (rule exI[of _ evs])
        using s st a(2) by simp
    qed
  qed
qed

lemma stepped_pct_refl: "stepped_pct sid w [] [] [] w"
  unfolding stepped_pct_def using stepped_refl[of sid w] by force

lemma stepped_pct_trans:
  assumes "stepped_pct sid w p1 a1 h1 w1" and "stepped_pct sid w1 p2 a2 h2 w2"
  shows "stepped_pct sid w (p1 @ p2) (a1 @ a2) (h1 @ h2) w2"
proof -
  from assms obtain e1 e2 where "stepped sid w e1 a1 h1 w1" "map progress e1 = p1"
    "stepped sid w1 e2 a2 h2 w2" "map progress e2 = p2"
    unfolding stepped_pct_def by blast
  then have "stepped sid w (e1 @ e2) (a1 @ a2) (h1 @ h2) w2" "map progress (e1 @ e2) = p1 @ p2"
    using stepped_trans by simp_all
  then show ?thesis unfolding stepped_pct_def by blast
qed

lemma stepped_pct_emit: "stepped_pct sid w [pct] [] [] (emit_progress sid stg pct msg w)"
  unfolding stepped_pct_def using stepped_emit_progress[of sid w stg pct msg] by force

lemma stepped_pct_then_emit:
  assumes "stepped_pct sid w ps a h w1"
  shows "stepped_pct sid w (ps @ [pct]) a h (emit_progress sid stg pct msg w1)"
  using stepped_pct_trans[OF assms stepped_pct_emit[of sid w1 pct stg msg]] by simp

lemma stepped_pct_I: "stepped sid w evs a h w' \<Longrightarrow> stepped_pct sid w (map progress evs) a h w'"
  unfolding stepped_pct_def by blast

lemma stepped_pct_fields:
  assumes "stepped_pct sid w ps as h w'"
  shows "files w' = files w" and "clock w' = clock w"
    and "history w' = history w @ h"
    and "new_history w w' = h" and "map progress (new_events sid w w') = ps"
    and "new_answers sid w w' = as"
    and "answers_lists w' (get_answers_key sid) = answers_lists w (get_answers_key sid) @ as"
    and "progress_lists w' (get_progress_key sid) = progress_lists w (get_progress_key sid) @ new_events sid w w'"
  using assms stepped_fields unfolding stepped_pct_def by auto

lemma hget_emit_progress_status:
  "hget (emit_progress sid stg pct msg w) key ''status'' = hget w key ''status''"
  by (simp add: emit_progress_def add_progress_event_def Let_def hget_def hset_def update_conv')

lemma hget_update_session_status:
  "hget (update_session_status sid st w) (get_session_key sid) ''status'' = Some (status_value st)"
  by (simp add: update_session_status_def hget_def hset_def update_conv')

lemma results_emit_progress: "results (emit_progress sid stg pct msg w) = results w"
  by (simp add: emit_progress_def add_progress_event_def Let_def hset_def)

lemma results_update_session_status: "results (update_session_status sid st w) = results w"
  by (simp add: update_session_status_def hset_def)

lemma store_and_complete_run:
  "\<exists>ps h. stepped_pct sid w ps [] h (fst (store_and_complete env sid qs as dba pdf w))
     \<and> (case snd (store_and_complete env sid qs as dba pdf w) of
           Inl e \<Rightarrow> h = []
         | Inr rd \<Rightarrow> h = [StatusWrite sid COMPLETE] \<and> ps = [90, 95, 100]
             \<and> completed sid (fst (store_and_complete env sid qs as dba pdf w)) rd (length qs)
             \<and> answers_generated rd = length as)"
proof -
  let ?w1 = "emit_progress sid ''pdf_complete'' 90 ''PDF generation complete'' w"
  let ?w2 = "emit_progress sid ''storing_pdf'' 95 ''Storing PDF'' ?w1"
  have s2: "stepped_pct sid w [90, 95] [] [] ?w2"
    using stepped_pct_then_emit[OF stepped_pct_emit[of sid w 90 "''pdf_complete''" "''PDF generation complete''"],
        of 95 "''storing_pdf''" "''Storing PDF''"] by simp
  show ?thesis
  proof (cases "save_pdf env pdf")
    case (Inl e)
    have res: "store_and_complete env sid qs as dba pdf w = (?w2, Inl e)"
      unfolding store_and_complete_def Let_def using Inl by simp
    show ?thesis
      unfolding res
      apply (rule exI[of _ "[90, 95]"], rule exI[of _ "[]"])
      using s2 by simp
  next
    case (Inr ident)
    let ?w3 = "?w2\<lparr>pdfs := (pdfs ?w2)(ident \<mapsto> pdf)\<rparr>"
    let ?rd = "Success_result ident (filename pdf) (page_count pdf) (length qs) (length as)
                          (sum_list (map (\<lambda>(k, d). length d) dba))"
    let ?w4 = "store_result sid ?rd ?w3"
    let ?w5 = "update_session_status sid COMPLETE ?w4"
    let ?w6 = "emit_progress sid ''complete'' 100 ''Processing complete'' ?w5"
    have res: "store_and_complete env sid qs as dba pdf w = (?w6, Inr ?rd)"
      unfolding store_and_complete_def Let_def using Inr by simp
    have "stepped_pct sid ?w2 [] [] [] ?w3"
      using stepped_pct_I[OF stepped_pdfs[of sid ?w2 "(pdfs ?w2)(ident \<mapsto> pdf)"]] by simp
    from stepped_pct_trans[OF s2 this] have s3: "stepped_pct sid w [90, 95] [] [] ?w3" by simp
    have "stepped_pct sid ?w3 [] [] [] ?w4"
      using stepped_pct_I[OF stepped_store_result[of sid ?w3 ?rd]] by simp
    from stepped_pct_trans[OF s3 this] have s4: "stepped_pct sid w [90, 95] [] [] ?w4" by simp
    have "stepped_pct sid ?w4 [] [] [StatusWrite sid COMPLETE] ?w5"
      using stepped_pct_I[OF stepped_update_session_status[of sid ?w4 COMPLETE]] by simp
    from stepped_pct_trans[OF s4 this]
    have s5: "stepped_pct sid w [90, 95] [] [StatusWrite sid COMPLETE] ?w5" by simp
    from stepped_pct_then_emit[OF s5, of 100 "''complete''" "''Processing complete''"]
    have s6: "stepped_pct sid w [90, 95, 100] [] [StatusWrite sid COMPLETE] ?w6" by simp
    have st: "hget ?w6 (get_session_key sid) ''status'' = Some (status_value COMPLETE)"
      unfolding hget_emit_progress_status by (rule hget_update_session_status)
    have rs: "results ?w6 (get_result_key sid) = Some ?rd"
      unfolding results_emit_progress results_update_session_status
      by (simp add: store_result_def)
    show ?thesis
      unfolding res
      apply (rule exI[of _ "[90, 95, 100]"], rule exI[of _ "[StatusWrite sid COMPLETE]"])
      using s6 st rs by (simp add: completed_def)
  qed
qed

lemma new_AnswerGenerator_fields:
  assumes "new_AnswerGenerator env prov retries cb key = Inr gen"
  shows "progress_callback gen = cb" and "max_retries gen = retries" and "llm_provider gen = prov"
  using assms
  by (auto simp: new_AnswerGenerator_def Let_def split: if_splits option.splits)

lemma init_services_generator:
  assumes "init_services env sid prov user_id = Inr gen"
  shows "progress_callback gen = Some (answer_progress_callback sid)"
    and "max_retries gen = default_max_retries"
  using assms new_AnswerGenerator_fields
  by (auto simp: init_services_def split: option.splits sum.splits prod.splits)

lemma diagrams_and_pdf_run:
  "\<exists>ps h. stepped_pct sid w ps [] h (fst (diagrams_and_pdf env sid lang qs as w))
     \<and> (case snd (diagrams_and_pdf env sid lang qs as w) of
           Inl e \<Rightarrow> h = []
         | Inr rd \<Rightarrow> h = [StatusWrite sid COMPLETE]
             \<and> (\<exists>post. ps = 60 # post \<and> sorted (60 # post) \<and> last (60 # post) = 100)
             \<and> completed sid (fst (diagrams_and_pdf env sid lang qs as w)) rd (length qs)
             \<and> answers_generated rd = length as)"
proof -
  let ?m1 = "''Successfully generated '' @ str_int (int (length as)) @ '' answers''"
  let ?w1 = "emit_progress sid ''answers_complete'' 60 ?m1 w"
  let ?w2 = "emit_progress sid ''generating_diagrams'' 65 ''Generating diagrams'' ?w1"
  have s2: "stepped_pct sid w [60, 65] [] [] ?w2"
    using stepped_pct_then_emit[OF stepped_pct_emit[of sid w 60 "''answers_complete''" ?m1],
        of 65 "''generating_diagrams''" "''Generating diagrams''"] by simp
  obtain w3 r where g: "generate_diagrams env sid as ?w2 = (w3, r)"
    by (cases "generate_diagrams env sid as ?w2")
  from generate_diagrams_stepped[of sid ?w2 env as] g
  obtain evs where e3: "stepped sid ?w2 evs [] [] w3"
    and c3: "\<forall>dba. r = Inr dba \<longrightarrow> sorted (map progress evs)
           \<and> (\<forall>e \<in> set evs. 65 \<le> progress e \<and> progress e \<le> 75)"
    by auto
  let ?dia = "map progress evs"
  from stepped_pct_trans[OF s2 stepped_pct_I[OF e3]]
  have s3: "stepped_pct sid w ([60, 65] @ ?dia) [] [] w3" by simp
  show ?thesis
  proof (cases r)
    case (Inl e)
    have res: "diagrams_and_pdf env sid lang qs as w = (w3, Inl e)"
      unfolding diagrams_and_pdf_def Let_def g Inl by simp
    show ?thesis
      unfolding res
      apply (rule exI[of _ "[60, 65] @ ?dia"], rule exI[of _ "[]"])
      using s3 by simp
  next
    case (Inr dba)
    with c3 have srt: "sorted ?dia" and bnd: "\<forall>p \<in> set ?dia. 65 \<le> p \<and> p \<le> 75" by auto
    let ?w4 = "emit_progress sid ''diagrams_complete'' 75 ''Diagram generation complete'' w3"
    let ?w5 = "emit_progress sid ''generating_pdf'' 80 ''Generating PDF document'' ?w4"
    from stepped_pct_then_emit[OF stepped_pct_then_emit[OF s3, of 75 "''diagrams_complete''"
          "''Diagram generation complete''"], of 80 "''generating_pdf''" "''Generating PDF document''"]
    have s5: "stepped_pct sid w ([60, 65] @ ?dia @ [75, 80]) [] [] ?w5" by simp
    show ?thesis
    proof (cases "generate_pdf env qs as dba lang")
      case pdf: (Inl e)
      have res: "diagrams_and_pdf env sid lang qs as w = (?w5, Inl e)"
        unfolding diagrams_and_pdf_def Let_def g Inr using pdf by simp
      show ?thesis
        unfolding res
        apply (rule exI[of _ "[60, 65] @ ?dia @ [75, 80]"], rule exI[of _ "[]"])
        using s5 by simp
    next
      case pdf: (Inr pdf_document)
      have res: "diagrams_and_pdf env sid lang qs as w =
                   store_and_complete env sid qs as dba pdf_document ?w5"
        unfolding diagrams_and_pdf_def Let_def g Inr using pdf by simp
      from store_and_complete_run[of sid ?w5 env qs as dba pdf_document]
      obtain ps6 h6 where s6: "stepped_pct sid ?w5 ps6 [] h6
            (fst (store_and_complete env sid qs as dba pdf_document ?w5))"
        and c6: "(case snd (store_and_complete env sid qs as dba pdf_document ?w5) of
           Inl e \<Rightarrow> h6 = []
         | Inr rd \<Rightarrow> h6 = [StatusWrite sid COMPLETE] \<and> ps6 = [90, 95, 100]
             \<and> completed sid (fst (store_and_complete env sid qs as dba pdf_document ?w5)) rd (length qs)
             \<and> answers_generated rd = length as)"
        by blast
      from stepped_pct_trans[OF s5 s6]
      have s56: "stepped_pct sid w ([60, 65] @ ?dia @ [75, 80] @ ps6) [] h6
            (fst (store_and_complete env sid qs as dba pdf_document ?w5))" by simp
      have shape: "sorted (60 # 65 # ?dia @ [75, 80, 90, 95, 100])
                   \<and> last (60 # 65 # ?dia @ [75, 80, 90, 95, 100]) = 100"
        using srt bnd by (auto simp: sorted_append)
      show ?thesis
        unfolding res
        apply (rule exI[of _ "[60, 65] @ ?dia @ [75, 80] @ ps6"], rule exI[of _ h6])
        using s56 c6 shape
        by (auto split: sum.splits)
    qed
  qed
qed

lemma services_and_answers_run:
  "\<exists>ps a h. stepped_pct sid w ps a h (fst (services_and_answers env sid lang prov uid qs w))
     \<and> (\<exists>h1. list_all llm_effect h1
           \<and> h = h1 @ (case snd (services_and_answers env sid lang prov uid qs w) of
                         Inl e \<Rightarrow> [] | Inr rd \<Rightarrow> [StatusWrite sid COMPLETE]))
     \<and> (\<forall>rd. snd (services_and_answers env sid lang prov uid qs w) = Inr rd \<longrightarrow>
           (\<exists>mid post. ps = [15, 20, 25] @ mid @ 60 # post
              \<and> (\<forall>p \<in> set mid. 24 \<le> p \<and> p \<le> 60)
              \<and> sorted (60 # post) \<and> last (60 # post) = 100)
           \<and> map index a = map int [0..<length qs] \<and> map question a = map q_text qs
           \<and> completed sid (fst (services_and_answers env sid lang prov uid qs w)) rd (length qs)
           \<and> answers_generated rd = length qs)"
proof -
  let ?m1 = "''Successfully parsed '' @ str_int (int (length qs)) @ '' questions''"
  let ?w1 = "emit_progress sid ''parsing_complete'' 15 ?m1 w"
  let ?w2 = "emit_progress sid ''initializing_services'' 20 ''Initializing services'' ?w1"
  have s2: "stepped_pct sid w [15, 20] [] [] ?w2"
    using stepped_pct_then_emit[OF stepped_pct_emit[of sid w 15 "''parsing_complete''" ?m1],
        of 20 "''initializing_services''" "''Initializing services''"] by simp
  show ?thesis
  proof (cases "init_services env sid prov uid")
    case (Inl e)
    have res: "services_and_answers env sid lang prov uid qs w = (?w2, Inl e)"
      unfolding services_and_answers_def Let_def using Inl by simp
    show ?thesis
      unfolding res
      apply (rule exI[of _ "[15, 20]"], rule exI[of _ "[]"], rule exI[of _ "[]"])
      using s2 by simp
  next
    case (Inr gen)
    have cb: "progress_callback gen = None \<or> progress_callback gen = Some (answer_progress_callback sid)"
      using init_services_generator(1)[OF Inr] by simp
    let ?m3 = "''Generating answers for '' @ str_int (int (length qs)) @ '' questions''"
    let ?w3 = "emit_progress sid ''generating_answers'' 25 ?m3 ?w2"
    from stepped_pct_then_emit[OF s2, of 25 "''generating_answers''" ?m3]
    have s3: "stepped_pct sid w [15, 20, 25] [] [] ?w3" by simp
    obtain w4 r where l: "answer_loop env sid gen lang (length qs) (Suc 0) qs [] ?w3 = (w4, r)"
      by (cases "answer_loop env sid gen lang (length qs) (Suc 0) qs [] ?w3")
    from answer_loop_stepped[OF cb, of 0 qs "length qs" ?w3 env lang "[]"] l
    obtain evs a h where e4: "stepped sid ?w3 evs a h w4" and l4: "list_all llm_effect h"
      and b4: "list_all (\<lambda>e. 24 \<le> progress e \<and> progress e \<le> 60) evs"
      and c4: "\<forall>answers'. r = Inr answers' \<longrightarrow>
                (\<exists>new. answers' = [] @ new \<and> length new = length qs
                   \<and> map question_id new = map q_id qs
                   \<and> a = map (\<lambda>(j, q, x). preview_of ?w3 j q x)
                             (zip [0..<0 + length qs] (zip qs new)))"
      by auto
    let ?mid = "map progress evs"
    have bm: "\<forall>p \<in> set ?mid. 24 \<le> p \<and> p \<le> 60" using b4 by (auto simp: list_all_iff)
    from stepped_pct_trans[OF s3 stepped_pct_I[OF e4]]
    have s4: "stepped_pct sid w ([15, 20, 25] @ ?mid) a h w4" by simp
    show ?thesis
    proof (cases r)
      case (Inl e)
      have res: "services_and_answers env sid lang prov uid qs w = (w4, Inl e)"
        unfolding services_and_answers_def Let_def using Inr l Inl by simp
      show ?thesis
        unfolding res
        apply (rule exI[of _ "[15, 20, 25] @ ?mid"], rule exI[of _ a], rule exI[of _ h])
        using s4 l4 by simp
    next
      case ans: (Inr answers)
      from c4 ans obtain new where new: "answers = new" "length new = length qs"
        "a = map (\<lambda>(j, q, x). preview_of ?w3 j q x) (zip [0..<0 + length qs] (zip qs new))"
        by auto
      have ai: "map index a = map int [0..<length qs]" and aq: "map question a = map q_text qs"
        using previews_index(1,2)[OF new(2), of ?w3 0] new(3) by simp_all
      have res: "services_and_answers env sid lang prov uid qs w =
                   diagrams_and_pdf env sid lang qs answers w4"
        unfolding services_and_answers_def Let_def using Inr l ans by simp
      from diagrams_and_pdf_run[of sid w4 env lang qs answers]
      obtain ps5 h5 where s5: "stepped_pct sid w4 ps5 [] h5 (fst (diagrams_and_pdf env sid lang qs answers w4))"
        and c5: "(case snd (diagrams_and_pdf env sid lang qs answers w4) of
           Inl e \<Rightarrow> h5 = []
         | Inr rd \<Rightarrow> h5 = [StatusWrite sid COMPLETE]
             \<and> (\<exists>post. ps5 = 60 # post \<and> sorted (60 # post) \<and> last (60 # post) = 100)
             \<and> completed sid (fst (diagrams_and_pdf env sid lang qs answers w4)) rd (length qs)
             \<and> answers_generated rd = length answers)"
        by blast
      from stepped_pct_trans[OF s4 s5]
      have s45: "stepped_pct sid w ([15, 20, 25] @ ?mid @ ps5) a (h @ h5)
                   (fst (diagrams_and_pdf env sid lang qs answers w4))" by simp
      have hist: "\<exists>h1. list_all llm_effect h1
           \<and> h @ h5 = h1 @ (case snd (diagrams_and_pdf env sid lang qs answers w4) of
                         Inl e \<Rightarrow> [] | Inr rd \<Rightarrow> [StatusWrite sid COMPLETE])"
        apply (rule exI[of _ h])
        using l4 c5 by (auto split: sum.splits)
      have succ: "(\<exists>mid post. [15, 20, 25] @ ?mid @ ps5 = [15, 20, 25] @ mid @ 60 # post
              \<and> (\<forall>p \<in> set mid. 24 \<le> p \<and> p \<le> 60)
              \<and> sorted (60 # post) \<and> last (60 # post) = 100)
           \<and> map index a = map int [0..<length qs] \<and> map question a = map q_text qs
           \<and> completed sid (fst (diagrams_and_pdf env sid lang qs answers w4)) rd (length qs)
           \<and> answers_generated rd = length qs"
        if "snd (diagrams_and_pdf env sid lang qs answers w4) = Inr rd" for rd
      proof -
        from c5 that obtain post where p: "ps5 = 60 # post" "sorted (60 # post)"
            "last (60 # post) = 100"
          and cmp: "completed sid (fst (diagrams_and_pdf env sid lang qs answers w4)) rd (length qs)"
          and ag: "answers_generated rd = length answers"
          by auto
        have "\<exists>mid post'. [15, 20, 25] @ ?mid @ ps5 = [15, 20, 25] @ mid @ 60 # post'
              \<and> (\<forall>p \<in> set mid. 24 \<le> p \<and> p \<le> 60)
              \<and> sorted (60 # post') \<and> last (60 # post') = 100"
          apply (rule exI[of _ ?mid], rule exI[of _ post])
          using p bm by simp
        then show ?thesis using ai aq cmp ag new by simp
      qed
      show ?thesis
        unfolding res
        apply (rule exI[of _ "[15, 20, 25] @ ?mid @ ps5"], rule exI[of _ a], rule exI[of _ "h @ h5"])
        using s45 hist succ by blast
    qed
  qed
qed

lemma parse_input_file_files:
  "files w1 = files w \<Longrightarrow> parse_input_file env fp ff w1 = parse_input_file env fp ff w"
  by (simp add: parse_input_file_def)

lemma try_block_run:
  "\<exists>ps a h. stepped_pct sid w ps a h (fst (try_block env sid fp ff lang prov uid w))
     \<and> (\<exists>h1. list_all llm_effect h1
           \<and> h = StatusWrite sid PROCESSING # h1
                 @ (case snd (try_block env sid fp ff lang prov uid w) of
                      Inl e \<Rightarrow> [] | Inr rd \<Rightarrow> [StatusWrite sid COMPLETE]))
     \<and> (\<forall>rd. snd (try_block env sid fp ff lang prov uid w) = Inr rd \<longrightarrow>
           (\<exists>qs. parse_input_file env fp ff w = Inr qs \<and> qs \<noteq> []
              \<and> (\<exists>mid post. ps = [0, 5, 15, 20, 25] @ mid @ 60 # post
                    \<and> (\<forall>p \<in> set mid. 24 \<le> p \<and> p \<le> 60)
                    \<and> sorted (60 # post) \<and> last (60 # post) = 100)
              \<and> map index a = map int [0..<length qs] \<and> map question a = map q_text qs
              \<and> completed sid (fst (try_block env sid fp ff lang prov uid w)) rd (length qs)
              \<and> answers_generated rd = length qs))"
proof -
  let ?w1 = "update_session_status sid PROCESSING w"
  let ?w2 = "emit_progress sid ''initializing'' 0 ''Initializing processing'' ?w1"
  let ?w3 = "emit_progress sid ''parsing'' 5 ''Parsing input file'' ?w2"
  have s1: "stepped_pct sid w [] [] [StatusWrite sid PROCESSING] ?w1"
    using stepped_pct_I[OF stepped_update_session_status[of sid w PROCESSING]] by simp
  from stepped_pct_then_emit[OF stepped_pct_then_emit[OF s1, of 0 "''initializing''"
        "''Initializing processing''"], of 5 "''parsing''" "''Parsing input file''"]
  have s3: "stepped_pct sid w [0, 5] [] [StatusWrite sid PROCESSING] ?w3" by simp
  have pf: "parse_input_file env fp ff ?w3 = parse_input_file env fp ff w"
    by (rule parse_input_file_files) (rule stepped_pct_fields(1)[OF s3])
  show ?thesis
  proof (cases "parse_input_file env fp ff w")
    case (Inl e)
    have res: "try_block env sid fp ff lang prov uid w = (?w3, Inl e)"
      unfolding try_block_def Let_def pf using Inl by simp
    show ?thesis
      unfolding res
      apply (rule exI[of _ "[0, 5]"], rule exI[of _ "[]"], rule exI[of _ "[StatusWrite sid PROCESSING]"])
      using s3 by simp
  next
    case (Inr qs)
    show ?thesis
    proof (cases "qs = []")
      case True
      have res: "try_block env sid fp ff lang prov uid w =
        (?w3, Inl (ParseError_message_only ''No questions found in the input file''))"
        unfolding try_block_def Let_def pf using Inr True by simp
      show ?thesis
        unfolding res
        apply (rule exI[of _ "[0, 5]"], rule exI[of _ "[]"], rule exI[of _ "[StatusWrite sid PROCESSING]"])
        using s3 by simp
    next
      case False
      have res: "try_block env sid fp ff lang prov uid w =
                   services_and_answers env sid lang prov uid qs ?w3"
        unfolding try_block_def Let_def pf using Inr False by simp
      from services_and_answers_run[of sid ?w3 env lang prov uid qs]
      obtain ps4 a4 h4 h1 where s4: "stepped_pct sid ?w3 ps4 a4 h4
             (fst (services_and_answers env sid lang prov uid qs ?w3))"
        and l1: "list_all llm_effect h1"
        and h4: "h4 = h1 @ (case snd (services_and_answers env sid lang prov uid qs ?w3) of
                         Inl e \<Rightarrow> [] | Inr rd \<Rightarrow> [StatusWrite sid COMPLETE])"
        and c4: "\<forall>rd. snd (services_and_answers env sid lang prov uid qs ?w3) = Inr rd \<longrightarrow>
           (\<exists>mid post. ps4 = [15, 20, 25] @ mid @ 60 # post
              \<and> (\<forall>p \<in> set mid. 24 \<le> p \<and> p \<le> 60)
              \<and> sorted (60 # post) \<and> last (60 # post) = 100)
           \<and> map index a4 = map int [0..<length qs] \<and> map question a4 = map q_text qs
           \<and> completed sid (fst (services_and_answers env sid lang prov uid qs ?w3)) rd (length qs)
           \<and> answers_generated rd = length qs"
        by blast
      from stepped_pct_trans[OF s3 s4]
      have s34: "stepped_pct sid w ([0, 5] @ ps4) a4 (StatusWrite sid PROCESSING # h4)
             (fst (services_and_answers env sid lang prov uid qs ?w3))" by simp
      have hist: "\<exists>h1. list_all llm_effect h1
           \<and> StatusWrite sid PROCESSING # h4 = StatusWrite sid PROCESSING # h1
                 @ (case snd (services_and_answers env sid lang prov uid qs ?w3) of
                      Inl e \<Rightarrow> [] | Inr rd \<Rightarrow> [StatusWrite sid COMPLETE])"
        apply (rule exI[of _ h1])
        using l1 h4 by simp
      have succ: "\<exists>qs'. Inr qs = (Inr qs' :: exc + Question list) \<and> qs' \<noteq> []
              \<and> (\<exists>mid post. [0, 5] @ ps4 = [0, 5, 15, 20, 25] @ mid @ 60 # post
                    \<and> (\<forall>p \<in> set mid. 24 \<le> p \<and> p \<le> 60)
                    \<and> sorted (60 # post) \<and> last (60 # post) = 100)
              \<and> map index a4 = map int [0..<length qs'] \<and> map question a4 = map q_text qs'
              \<and> completed sid (fst (services_and_answers env sid lang prov uid qs ?w3)) rd (length qs')
              \<and> answers_generated rd = length qs'"
        if "snd (services_and_answers env sid lang prov uid qs ?w3) = Inr rd" for rd
      proof -
        from c4 that obtain mid post where p: "ps4 = [15, 20, 25] @ mid @ 60 # post"
            "\<forall>p \<in> set mid. 24 \<le> p \<and> p \<le> 60" "sorted (60 # post)" "last (60 # post) = 100"
          and rest: "map index a4 = map int [0..<length qs]" "map question a4 = map q_text qs"
            "completed sid (fst (services_and_answers env sid lang prov uid qs ?w3)) rd (length qs)"
            "answers_generated rd = length qs"
          by blast
        have "\<exists>mid' post'. [0, 5] @ ps4 = [0, 5, 15, 20, 25] @ mid' @ 60 # post'
                    \<and> (\<forall>p \<in> set mid'. 24 \<le> p \<and> p \<le> 60)
                    \<and> sorted (60 # post') \<and> last (60 # post') = 100"
          apply (rule exI[of _ mid], rule exI[of _ post])
          using p by simp
        then show ?thesis
          apply -
          apply (rule exI[of _ qs])
          using rest False by simp
      qed
      show ?thesis
        unfolding res Inr
        apply (rule exI[of _ "[0, 5] @ ps4"], rule exI[of _ a4],
               rule exI[of _ "StatusWrite sid PROCESSING # h4"])
        using s34 hist succ by blast
    qed
  qed
qed

section \<open>Properties of the task\<close>



lemma removals_append: "removals p (h1 @ h2) = removals p h1 + removals p h2"
  by (simp add: removals_def)

lemma removals_llm: "list_all llm_effect h \<Longrightarrow> removals p h = 0"
proof (induction h)
  case Nil
  then show ?case by (simp add: removals_def)
next
  case (Cons e h)
  then show ?case by (cases e) (simp_all add: removals_def)
qed

lemma except_block_run:
  shows "stepped_pct sid w [0] [] [StatusWrite sid ERROR] (except_block env sid e w)"
  and "hget (except_block env sid e w) (get_session_key sid) ''status'' = Some (status_value ERROR)"
  and "results (except_block env sid e w) (get_result_key sid)
         = Some (Error_result (exc_str e) (exc_type e) (format_exc env e))"
proof -
  let ?rd = "Error_result (exc_str e) (exc_type e) (format_exc env e)"
  let ?w1 = "store_result sid ?rd w"
  let ?w2 = "update_session_status sid ERROR ?w1"
  let ?msg = "''Processing failed: '' @ exc_str e"
  have res: "except_block env sid e w = emit_progress sid ''error'' 0 ?msg ?w2"
    by (simp add: except_block_def Let_def)
  have "stepped_pct sid w [] [] [] ?w1"
    using stepped_pct_I[OF stepped_store_result[of sid w ?rd]] by simp
  moreover have "stepped_pct sid ?w1 [] [] [StatusWrite sid ERROR] ?w2"
    using stepped_pct_I[OF stepped_update_session_status[of sid ?w1 ERROR]] by simp
  ultimately have "stepped_pct sid w [] [] [StatusWrite sid ERROR] ?w2"
    using stepped_pct_trans by fastforce
  from stepped_pct_then_emit[OF this, of 0 "''error''" ?msg]
  show "stepped_pct sid w [0] [] [StatusWrite sid ERROR] (except_block env sid e w)"
    unfolding res by simp
  show "hget (except_block env sid e w) (get_session_key sid) ''status'' = Some (status_value ERROR)"
    unfolding res hget_emit_progress_status by (rule hget_update_session_status)
  show "results (except_block env sid e w) (get_result_key sid) = Some ?rd"
    unfolding res results_emit_progress results_update_session_status
    by (simp add: store_result_def)
qed

lemma finally_block_fields:
  shows "history (finally_block fp w) = history w @ (if files w fp \<noteq> None then [FileRemove fp] else [])"
    and "files (finally_block fp w) fp = None"
    and "hashes (finally_block fp w) = hashes w"
    and "results (finally_block fp w) = results w"
    and "progress_lists (finally_block fp w) = progress_lists w"
    and "answers_lists (finally_block fp w) = answers_lists w"
  by (auto simp: finally_block_def)

lemma finally_block_new:
  shows "new_events sid w (finally_block fp w1) = new_events sid w w1"
    and "new_answers sid w (finally_block fp w1) = new_answers sid w w1"
    and "hget (finally_block fp w1) key f = hget w1 key f"
  by (simp_all add: new_events_def new_answers_def hget_def finally_block_fields)

text \<open>
  The whole task: what a run appends, by its outcome.
\<close>

lemma process_summary:
  fixes env sid fp ff lang prov uid w
  defines "P \<equiv> process_question_paper env sid fp ff lang prov uid w"
  shows "\<exists>h1 ps a. list_all llm_effect h1
     \<and> history (fst P) = history w @ StatusWrite sid PROCESSING # h1
         @ [StatusWrite sid (case snd P of Inl e \<Rightarrow> ERROR | Inr rd \<Rightarrow> COMPLETE)]
         @ (if files w fp \<noteq> None then [FileRemove fp] else [])
     \<and> files (fst P) fp = None
     \<and> hget (fst P) (get_session_key sid) ''status''
         = Some (status_value (case snd P of Inl e \<Rightarrow> ERROR | Inr rd \<Rightarrow> COMPLETE))
     \<and> map progress (new_events sid w (fst P)) = ps
     \<and> progress_lists (fst P) (get_progress_key sid)
         = progress_lists w (get_progress_key sid) @ new_events sid w (fst P)
     \<and> new_answers sid w (fst P) = a
     \<and> answers_lists (fst P) (get_answers_key sid) = answers_lists w (get_answers_key sid) @ a
     \<and> (\<forall>e. snd P = Inl e \<longrightarrow> last ps = 0 \<and> ps \<noteq> []
           \<and> results (fst P) (get_result_key sid)
               = Some (Error_result (exc_str e) (exc_type e) (format_exc env e)))
     \<and> (\<forall>rd. snd P = Inr rd \<longrightarrow>
           (\<exists>qs. parse_input_file env fp ff w = Inr qs \<and> qs \<noteq> []
              \<and> (\<exists>mid post. ps = [0, 5, 15, 20, 25] @ mid @ 60 # post
                    \<and> (\<forall>p \<in> set mid. 24 \<le> p \<and> p \<le> 60)
                    \<and> sorted (60 # post) \<and> last (60 # post) = 100)
              \<and> map index a = map int [0..<length qs] \<and> map question a = map q_text qs
              \<and> results (fst P) (get_result_key sid) = Some rd
              \<and> questions_processed rd = length qs
              \<and> answers_generated rd = length qs))"
proof -
  let ?T = "try_block env sid fp ff lang prov uid w"
  from try_block_run[of sid w env fp ff lang prov uid]
  obtain ps a h h1 where s: "stepped_pct sid w ps a h (fst ?T)"
    and l1: "list_all llm_effect h1"
    and h: "h = StatusWrite sid PROCESSING # h1
                 @ (case snd ?T of Inl e \<Rightarrow> [] | Inr rd \<Rightarrow> [StatusWrite sid COMPLETE])"
    and c: "\<forall>rd. snd ?T = Inr rd \<longrightarrow>
           (\<exists>qs. parse_input_file env fp ff w = Inr qs \<and> qs \<noteq> []
              \<and> (\<exists>mid post. ps = [0, 5, 15, 20, 25] @ mid @ 60 # post
                    \<and> (\<forall>p \<in> set mid. 24 \<le> p \<and> p \<le> 60)
                    \<and> sorted (60 # post) \<and> last (60 # post) = 100)
              \<and> map index a = map int [0..<length qs] \<and> map question a = map q_text qs
              \<and> completed sid (fst ?T) rd (length qs)
              \<and> answers_generated rd = length qs)"
    by blast
  obtain w1 r where t: "?T = (w1, r)" by (cases ?T)
  have s1: "stepped_pct sid w ps a h w1" using s t by simp
  show ?thesis
  proof (cases r)
    case (Inr rd)
    have P: "P = (finally_block fp w1, Inr rd)"
      unfolding P_def process_question_paper_def t Inr by simp
    have hh: "h = StatusWrite sid PROCESSING # h1 @ [StatusWrite sid COMPLETE]"
      using h t Inr by simp
    from c t Inr obtain qs where q: "parse_input_file env fp ff w = Inr qs" "qs \<noteq> []"
        "\<exists>mid post. ps = [0, 5, 15, 20, 25] @ mid @ 60 # post
                    \<and> (\<forall>p \<in> set mid. 24 \<le> p \<and> p \<le> 60)
                    \<and> sorted (60 # post) \<and> last (60 # post) = 100"
        "map index a = map int [0..<length qs]" "map question a = map q_text qs"
        "completed sid w1 rd (length qs)" "answers_generated rd = length qs"
      by auto
    have f: "files w1 = files w" using stepped_pct_fields(1)[OF s1] .
    show ?thesis
      unfolding P
      apply (rule exI[of _ h1], rule exI[of _ ps], rule exI[of _ a])
      using l1 hh q f stepped_pct_fields[OF s1]
      by (simp add: finally_block_fields finally_block_new completed_def)
  next
    case (Inl e)
    let ?w2 = "except_block env sid e w1"
    have P: "P = (finally_block fp ?w2, Inl e)"
      unfolding P_def process_question_paper_def t Inl by simp
    have hh: "h = StatusWrite sid PROCESSING # h1"
      using h t Inl by simp
    from stepped_pct_trans[OF s1 except_block_run(1)[of sid w1 env e]]
    have s2: "stepped_pct sid w (ps @ [0]) a (h @ [StatusWrite sid ERROR]) ?w2" by simp
    have f: "files ?w2 = files w" using stepped_pct_fields(1)[OF s2] .
    show ?thesis
      unfolding P
      apply (rule exI[of _ h1], rule exI[of _ "ps @ [0]"], rule exI[of _ a])
      using l1 hh f stepped_pct_fields[OF s2] except_block_run(2,3)[of env sid e w1]
      by (simp add: finally_block_fields finally_block_new)
  qed
qed






text \<open>
  Claim C7. When the uploaded file exists at the start of the run, every run, whatever
  the collaborators do, calls \<open>os.remove\<close> on it exactly once, as its last effect, and
  the file is gone afterwards.
\<close>

theorem input_file_removed_once:
  assumes "files w fp \<noteq> None"
  shows "let w' = fst (process_question_paper env sid fp ff lang prov uid w)
         in removals fp (new_history w w') = 1 \<and> files w' fp = None
          \<and> history w' = history w @ new_history w w'
          \<and> last (history w') = FileRemove fp"
proof -
  let ?P = "process_question_paper env sid fp ff lang prov uid w"
  let ?t = "case snd ?P of Inl e \<Rightarrow> ERROR | Inr rd \<Rightarrow> COMPLETE"
  from process_summary[of env sid fp ff lang prov uid w] assms
  obtain h1 where l: "list_all llm_effect h1"
    and h: "history (fst ?P) = history w @ StatusWrite sid PROCESSING # h1 @ [StatusWrite sid ?t] @ [FileRemove fp]"
    and f: "files (fst ?P) fp = None"
    by auto
  have nh: "new_history w (fst ?P) = StatusWrite sid PROCESSING # h1 @ [StatusWrite sid ?t] @ [FileRemove fp]"
    unfolding new_history_def h by simp
  have "removals fp (new_history w (fst ?P)) = removals fp h1 + 1"
    unfolding nh by (simp add: removals_def)
  then have r: "removals fp (new_history w (fst ?P)) = 1"
    using removals_llm[OF l, of fp] by simp
  show ?thesis
    unfolding Let_def using r f h nh by simp
qed

text \<open>The three example runs: completed, with a failed generation, and fatal.\<close>

theorem input_file_removed_once_witness:
  "files example_world ''uploads/sess-0001.txt'' \<noteq> None
   \<and> removals ''uploads/sess-0001.txt'' (new_history example_world (fst example_run)) = 1
   \<and> removals ''uploads/sess-0001.txt'' (new_history example_world (fst failing_run)) = 1
   \<and> removals ''uploads/sess-0001.txt'' (new_history example_world (fst empty_run)) = 1
   \<and> files (fst empty_run) ''uploads/sess-0001.txt'' = None"
proof -
  have ex: "files example_world ''uploads/sess-0001.txt'' \<noteq> None"
    by (simp add: example_world_def)
  from input_file_removed_once [OF ex, of example_env "''sess-0001''" "''text''" "''en''" "''gemini''" None]
       input_file_removed_once [OF ex, of failing_env "''sess-0001''" "''text''" "''en''" "''gemini''" None]
       input_file_removed_once [OF ex, of empty_env "''sess-0001''" "''text''" "''en''" "''gemini''" None]
       ex
  show ?thesis
    unfolding Let_def example_run_def failing_run_def empty_run_def by simp
qed

text \<open>
  The percentages that a completed run appends: 0, 5, 15, 20, 25, then the events of
  answer generation, between 24 and 60, then a non-decreasing sequence that starts with
  60 and ends with 100.
\<close>

lemma completed_run_progress_shape:
  assumes "snd (process_question_paper env sid fp ff lang prov uid w) = Inr rd"
  shows "let w' = fst (process_question_paper env sid fp ff lang prov uid w)
         in progress_lists w' (get_progress_key sid)
              = progress_lists w (get_progress_key sid) @ new_events sid w w'
          \<and> (\<exists>mid post.
                map progress (new_events sid w w') = [0, 5, 15, 20, 25] @ mid @ 60 # post
                \<and> (\<forall>p \<in> set mid. 24 \<le> p \<and> p \<le> 60)
                \<and> sorted (60 # post) \<and> last (60 # post) = 100)"
proof -
  let ?P = "process_question_paper env sid fp ff lang prov uid w"
  from process_summary[of env sid fp ff lang prov uid w]
  obtain ps where ev: "map progress (new_events sid w (fst ?P)) = ps"
    and pl: "progress_lists (fst ?P) (get_progress_key sid)
              = progress_lists w (get_progress_key sid) @ new_events sid w (fst ?P)"
    and succ: "\<forall>rd. snd ?P = Inr rd \<longrightarrow>
           (\<exists>qs. parse_input_file env fp ff w = Inr qs \<and> qs \<noteq> []
              \<and> (\<exists>mid post. ps = [0, 5, 15, 20, 25] @ mid @ 60 # post
                    \<and> (\<forall>p \<in> set mid. 24 \<le> p \<and> p \<le> 60)
                    \<and> sorted (60 # post) \<and> last (60 # post) = 100)
              \<and> map index (new_answers sid w (fst ?P)) = map int [0..<length qs]
              \<and> map question (new_answers sid w (fst ?P)) = map q_text qs
              \<and> results (fst ?P) (get_result_key sid) = Some rd
              \<and> questions_processed rd = length qs
              \<and> answers_generated rd = length qs)"
    by blast
  from succ assms obtain mid post where shape: "ps = [0, 5, 15, 20, 25] @ mid @ 60 # post"
      "\<forall>p \<in> set mid. 24 \<le> p \<and> p \<le> 60" "sorted (60 # post)" "last (60 # post) = 100"
    by blast
  have "\<exists>mid post.
                map progress (new_events sid w (fst ?P)) = [0, 5, 15, 20, 25] @ mid @ 60 # post
                \<and> (\<forall>p \<in> set mid. 24 \<le> p \<and> p \<le> 60)
                \<and> sorted (60 # post) \<and> last (60 # post) = 100"
    unfolding ev
    apply (rule exI[of _ mid], rule exI[of _ post])
    using shape by blast
  with pl show ?thesis unfolding Let_def by blast
qed

text \<open>
  Claim C3. The code does not keep the percentages of a completed run non-decreasing. In
  the example run, on one question, the task appends 60 for the question (\<open>25 +
  int(1/1 * 35)\<close>) and the callback of the generator then appends 24, 28, 36, 48, 56 and
  60 (\<open>20 + int(p/100 * 40)\<close> for \<open>p\<close> = 10, 20, 40, 70, 90, 100): the log goes from 60
  back to 24. The last event of the run is 100, as claimed.
\<close>

theorem progress_regresses_in_answer_generation:
  "snd example_run = Inr (Success_result ''pdf_1'' ''answers.pdf'' 1 1 1 0)
   \<and> map progress (new_events ''sess-0001'' example_world (fst example_run))
       = [0, 5, 15, 20, 25, 60, 24, 28, 36, 48, 56, 60, 60, 65, 75, 80, 90, 95, 100]
   \<and> \<not> sorted (map progress (new_events ''sess-0001'' example_world (fst example_run)))
   \<and> last (map progress (new_events ''sess-0001'' example_world (fst example_run))) = 100"
proof -
  have a: "snd example_run = Inr (Success_result ''pdf_1'' ''answers.pdf'' 1 1 1 0)"
    by code_simp
  have b: "map progress (new_events ''sess-0001'' example_world (fst example_run))
       = [0, 5, 15, 20, 25, 60, 24, 28, 36, 48, 56, 60, 60, 65, 75, 80, 90, 95, 100]"
    by code_simp
  have c: "\<not> sorted [0, 5, 15, 20, 25, 60, 24, 28, 36, 48, 56, 60, 60, 65, 75, 80, 90, 95, 100 :: int]"
    by simp
  from a b c show ?thesis by simp
qed

section \<open>The fatal error of an input without questions\<close>

text \<open>
  Claim C6. When the uploaded file exists and the parser finds no question in it, the
  task raises; the error result with message, category and trace is stored, the status
  is \<open>error\<close>, the progress events of the run are those of the two first steps and a
  last event \<open>error\<close> with percentage 0, no answer preview is written, and the file is
  removed, once.
\<close>

theorem no_questions_is_fatal:
  assumes "files w fp = Some data" and "parse env data ff = Inr []"
  shows "let P = process_question_paper env sid fp ff lang prov uid w;
             e = ParseError_message_only ''No questions found in the input file''
         in snd P = Inl e
          \<and> results (fst P) (get_result_key sid)
              = Some (Error_result (exc_str e) (exc_type e) (format_exc env e))
          \<and> hget (fst P) (get_session_key sid) ''status'' = Some (status_value ERROR)
          \<and> status_writes sid (new_history w (fst P)) = [PROCESSING, ERROR]
          \<and> map (\<lambda>ev. (stage ev, progress ev)) (new_events sid w (fst P))
              = [(''initializing'', 0), (''parsing'', 5), (''error'', 0)]
          \<and> new_answers sid w (fst P) = []
          \<and> get_answers sid (fst P) = get_answers sid w
          \<and> files (fst P) fp = None
          \<and> removals fp (new_history w (fst P)) = 1"
proof -
  let ?e = "ParseError_message_only ''No questions found in the input file''"
  let ?rd = "Error_result (exc_str ?e) (exc_type ?e) (format_exc env ?e)"
  let ?w1 = "update_session_status sid PROCESSING w"
  let ?w2 = "emit_progress sid ''initializing'' 0 ''Initializing processing'' ?w1"
  let ?w3 = "emit_progress sid ''parsing'' 5 ''Parsing input file'' ?w2"
  let ?w3a = "store_result sid ?rd ?w3"
  let ?w3b = "update_session_status sid ERROR ?w3a"
  let ?w4 = "except_block env sid ?e ?w3"
  note a = stepped_trans[OF stepped_update_session_status[of sid w PROCESSING]
             stepped_emit_progress[of sid ?w1 "''initializing''" 0 "''Initializing processing''"]]
  note b = stepped_trans[OF a stepped_emit_progress[of sid ?w2 "''parsing''" 5 "''Parsing input file''"]]
  note c = stepped_trans[OF b stepped_store_result[of sid ?w3 ?rd]]
  note d = stepped_trans[OF c stepped_update_session_status[of sid ?w3a ERROR]]
  note f = stepped_trans[OF d stepped_emit_progress[of sid ?w3b "''error''" 0
             "''Processing failed: '' @ exc_str ?e"]]
  have w4: "?w4 = emit_progress sid ''error'' 0 (''Processing failed: '' @ exc_str ?e) ?w3b"
    by (simp add: except_block_def Let_def)
  have pf: "parse_input_file env fp ff ?w3 = Inr []"
    using assms stepped_fields(1)[OF b] by (simp add: parse_input_file_def)
  have tb: "try_block env sid fp ff lang prov uid w = (?w3, Inl ?e)"
    unfolding try_block_def Let_def pf by simp
  have P: "process_question_paper env sid fp ff lang prov uid w = (finally_block fp ?w4, Inl ?e)"
    unfolding process_question_paper_def tb by simp
  note g = f[folded w4]
  have fl: "files ?w4 fp \<noteq> None"
    using stepped_fields(1)[OF g] assms(1) by simp
  have hist: "new_history w (finally_block fp ?w4)
                = [StatusWrite sid PROCESSING, StatusWrite sid ERROR, FileRemove fp]"
    using fl stepped_fields(3)[OF g] by (simp add: new_history_def finally_block_fields)
  have ev: "map (\<lambda>ev. (stage ev, progress ev)) (new_events sid w (finally_block fp ?w4))
              = [(''initializing'', 0), (''parsing'', 5), (''error'', 0)]"
    unfolding finally_block_new using stepped_fields(7)[OF g] by simp
  have an: "new_answers sid w (finally_block fp ?w4) = []"
    unfolding finally_block_new using stepped_fields(8)[OF g] by simp
  have al: "get_answers sid (finally_block fp ?w4) = get_answers sid w"
    using stepped_fields(5)[OF g] by (simp add: get_answers_def finally_block_fields)
  have st: "hget (finally_block fp ?w4) (get_session_key sid) ''status'' = Some (status_value ERROR)"
    unfolding finally_block_new by (rule except_block_run(2))
  have rs: "results (finally_block fp ?w4) (get_result_key sid) = Some ?rd"
    unfolding finally_block_fields by (rule except_block_run(3))
  show ?thesis
    unfolding Let_def P
    using hist ev an al st rs finally_block_fields(2)[of fp ?w4]
    by (simp add: removals_def)
qed

text \<open>The run with the parser that finds no question.\<close>

theorem no_questions_is_fatal_witness:
  "files example_world ''uploads/sess-0001.txt'' = Some ''1. What is a stack?''
   \<and> parse empty_env ''1. What is a stack?'' ''text'' = Inr []
   \<and> snd empty_run = Inl (Exc ''TypeError''
        (''ParseError.__init__() missing 1 required positional argument: ''
         @ [CHR 0x27] @ ''parse_issue'' @ [CHR 0x27]))
   \<and> hget (fst empty_run) (get_session_key ''sess-0001'') ''status'' = Some ''error''
   \<and> map (\<lambda>ev. (stage ev, progress ev)) (new_events ''sess-0001'' example_world (fst empty_run))
        = [(''initializing'', 0), (''parsing'', 5), (''error'', 0)]
   \<and> get_answers ''sess-0001'' (fst empty_run) = []
   \<and> files (fst empty_run) ''uploads/sess-0001.txt'' = None"
proof -
  have a: "files example_world ''uploads/sess-0001.txt'' = Some ''1. What is a stack?''"
    by (simp add: example_world_def)
  have b: "parse empty_env ''1. What is a stack?'' ''text'' = Inr []"
    by (simp add: empty_env_def)
  have c: "get_answers ''sess-0001'' example_world = []"
    by (simp add: get_answers_def example_world_def)
  from no_questions_is_fatal[OF a b, of "''sess-0001''" "''en''" "''gemini''" None] a b c
  show ?thesis
    unfolding Let_def empty_run_def
    by (simp add: ParseError_message_only_def status_value.simps)
qed

section \<open>The fallback answer\<close>




section \<open>Properties of the regeneration endpoint\<close>
















end
